theory Spec2Isabelle
  imports Main "HOL-Library.Sublist" "HOL-Library.AList"
begin

section \<open>JavaScript strings\<close>

text \<open>
  A JavaScript string is a sequence of code units. The model uses \<^typ>\<open>string\<close>, so it
  covers the code units 0 to 255 (ASCII and the Latin-1 supplement); the primitives below
  are the ECMAScript ones restricted to that range.
\<close>

definition inRange :: "nat \<Rightarrow> nat \<Rightarrow> char \<Rightarrow> bool" where
  "inRange lo hi c = (lo \<le> (of_char c :: nat) \<and> (of_char c :: nat) \<le> hi)"

definition withBit5 :: "bool \<Rightarrow> char \<Rightarrow> char" where
  "withBit5 b c = (case c of Char b0 b1 b2 b3 b4 b5 b6 b7 \<Rightarrow> Char b0 b1 b2 b3 b4 b b6 b7)"

text \<open>\<^verbatim>\<open>String.prototype.toLowerCase\<close>: A-Z, and the Latin-1 capitals 0xC0-0xDE
  except the multiplication sign 0xD7, move up by 32 (bit 5 is set).\<close>

definition toLowerChar :: "char \<Rightarrow> char" where
  "toLowerChar c =
     (if inRange 65 90 c \<or> (inRange 192 222 c \<and> (of_char c :: nat) \<noteq> 215)
      then withBit5 True c else c)"

definition toLowerCase :: "string \<Rightarrow> string" where
  "toLowerCase s = map toLowerChar s"

text \<open>White space and line terminators of ECMAScript below 256: TAB, LF, VT, FF, CR,
  SP and NBSP. \<^verbatim>\<open>trim\<close> and the regular-expression class \<^verbatim>\<open>\s\<close> use the same set.\<close>

definition isWhiteSpace :: "char \<Rightarrow> bool" where
  "isWhiteSpace c = (inRange 9 13 c \<or> (of_char c :: nat) = 32 \<or> (of_char c :: nat) = 160)"

definition trim :: "string \<Rightarrow> string" where
  "trim s = rev (dropWhile isWhiteSpace (rev (dropWhile isWhiteSpace s)))"

text \<open>\<^verbatim>\<open>s.includes(sub)\<close>\<close>

fun str_includes :: "string \<Rightarrow> string \<Rightarrow> bool" where
  "str_includes [] sub = (sub = [])"
| "str_includes (c # cs) sub = (prefix sub (c # cs) \<or> str_includes cs sub)"

text \<open>\<^verbatim>\<open>s.split(',')\<close>: always at least one piece.\<close>

fun splitOn :: "char \<Rightarrow> string \<Rightarrow> string list" where
  "splitOn sep [] = [[]]"
| "splitOn sep (c # cs) =
     (if c = sep then [] # splitOn sep cs
      else (case splitOn sep cs of [] \<Rightarrow> [[c]] | w # ws \<Rightarrow> (c # w) # ws))"

text \<open>\<^verbatim>\<open>s.split(/\s+/)\<close>: a run of white space is one separator; a leading or trailing
  run yields an empty first or last piece.\<close>

function splitWs :: "string \<Rightarrow> string list" where
  "splitWs [] = [[]]"
| "splitWs (c # cs) =
     (if isWhiteSpace c then [] # splitWs (dropWhile isWhiteSpace cs)
      else (case splitWs cs of [] \<Rightarrow> [[c]] | w # ws \<Rightarrow> (c # w) # ws))"
  by pat_completeness auto
termination
  by (relation "measure length") (auto simp: le_imp_less_Suc length_dropWhile_le)

text \<open>\<^verbatim>\<open>pieces.join(" ")\<close>\<close>

fun joinSp :: "string list \<Rightarrow> string" where
  "joinSp [] = []"
| "joinSp [w] = w"
| "joinSp (w # ws) = w @ '' '' @ joinSp ws"

subsection \<open>The regular expressions of the scrapers\<close>

text \<open>
  With the flag \<^verbatim>\<open>i\<close> (and without \<^verbatim>\<open>u\<close>) two code units match when their
  canonical forms agree. Every pattern character here is ASCII, and no code unit of
  0x80-0xFF canonicalises to an ASCII one, so upper-casing a-z decides the match.
\<close>

definition canon :: "char \<Rightarrow> char" where
  "canon c = (if inRange 97 122 c then withBit5 False c else c)"

fun ciPrefix :: "string \<Rightarrow> string \<Rightarrow> bool" where
  "ciPrefix [] s = True"
| "ciPrefix (l # ls) [] = False"
| "ciPrefix (l # ls) (c # cs) = (canon c = canon l \<and> ciPrefix ls cs)"

text \<open>\<^verbatim>\<open>/^https?:\/\//i\<close>, the scheme test of the URL normalisation.\<close>

definition hasScheme :: "string \<Rightarrow> bool" where
  "hasScheme s = (ciPrefix ''https://'' s \<or> ciPrefix ''http://'' s)"

text \<open>\<^verbatim>\<open>\w\<close> and the class \<^verbatim>\<open>[\w\./?=&%-]\<close>.\<close>

definition isWordChar :: "char \<Rightarrow> bool" where
  "isWordChar c = (inRange 65 90 c \<or> inRange 97 122 c \<or> inRange 48 57 c \<or> c = CHR ''_'')"

definition isUrlTail :: "char \<Rightarrow> bool" where
  "isUrlTail c = (isWordChar c \<or> c \<in> set ''./?=&%-'')"

text \<open>The class \<^verbatim>\<open>[^"'>]\<close>.\<close>

definition notQuoteGt :: "char \<Rightarrow> bool" where
  "notQuoteGt c = (c \<noteq> CHR 0x22 \<and> c \<noteq> CHR 0x27 \<and> c \<noteq> CHR ''>'')"

text \<open>
  The greedy \<^verbatim>\<open>[^"'>]*\<close> first takes the whole run and then gives characters back one
  at a time until the literal that follows matches: the literal is looked for at offset
  \<open>k\<close>, then \<open>k - 1\<close>, down to 0.
\<close>

fun backtrack :: "string \<Rightarrow> string \<Rightarrow> nat \<Rightarrow> nat option" where
  "backtrack lit s 0 = (if ciPrefix lit s then Some 0 else None)"
| "backtrack lit s (Suc k) =
     (if ciPrefix lit (drop (Suc k) s) then Some (Suc k) else backtrack lit s k)"

text \<open>\<^verbatim>\<open>\/\/[^"'>]*PLATFORM\.com[\w\./?=&%-]*\<close> anchored at the start of \<open>s\<close>; the
  result is the matched text.\<close>

definition matchSlashes :: "string \<Rightarrow> string \<Rightarrow> string option" where
  "matchSlashes platform s =
     (if prefix ''//'' s then
        (let rest = drop 2 s;
             lit = platform @ ''.com''
         in case backtrack lit rest (length (takeWhile notQuoteGt rest)) of
              None \<Rightarrow> None
            | Some k \<Rightarrow>
                Some (''//'' @ take (k + length lit) rest
                      @ takeWhile isUrlTail (drop (k + length lit) rest)))
      else None)"

text \<open>The optional group \<^verbatim>\<open>(?:https?:)?\<close> is tried first with the scheme (with
  \<^verbatim>\<open>s\<close>, then without), and skipped when the rest fails after it.\<close>

definition matchHere :: "string \<Rightarrow> string \<Rightarrow> string option" where
  "matchHere platform s =
     (let withScheme =
            (if ciPrefix ''https:'' s then
               map_option ((@) (take 6 s)) (matchSlashes platform (drop 6 s))
             else if ciPrefix ''http:'' s then
               map_option ((@) (take 5 s)) (matchSlashes platform (drop 5 s))
             else None)
      in case withScheme of Some m \<Rightarrow> Some m | None \<Rightarrow> matchSlashes platform s)"

text \<open>\<^verbatim>\<open>new RegExp(..., 'gi').exec(html)\<close> on a fresh expression: the match at the
  leftmost start position, \<open>match[0]\<close>.\<close>

fun regexExec :: "string \<Rightarrow> string \<Rightarrow> string option" where
  "regexExec platform [] = matchHere platform []"
| "regexExec platform (c # cs) =
     (case matchHere platform (c # cs) of
        Some m \<Rightarrow> Some m
      | None \<Rightarrow> regexExec platform cs)"

section \<open>The social-link extractor\<close>

subsection \<open>Result Model\<close>

text \<open>
  A JavaScript object with string values: its properties in insertion order. Assigning to
  an existing key keeps the key's place, assigning to a new key appends it, which is what
  \<^const>\<open>AList.update\<close> does. Reading a missing key gives \<^verbatim>\<open>undefined\<close>
  (\<^const>\<open>None\<close>).
\<close>

type_synonym jsobject = "(string \<times> string) list"

definition setProp :: "jsobject \<Rightarrow> string \<Rightarrow> string \<Rightarrow> jsobject" where
  "setProp r k v = AList.update k v r"

text \<open>\<^verbatim>\<open>!result[k]\<close>: the empty string and \<^verbatim>\<open>undefined\<close> are falsy.\<close>

definition falsyProp :: "jsobject \<Rightarrow> string \<Rightarrow> bool" where
  "falsyProp r k = (case map_of r k of None \<Rightarrow> True | Some v \<Rightarrow> v = [])"

definition socialPlatforms :: "string list" where
  "socialPlatforms = [''facebook'', ''instagram'', ''twitter'', ''youtube'', ''linkedin'']"

text \<open>\<^verbatim>\<open>socialPlatforms.reduce((acc, platform) => { acc[platform] = ''; return acc; },
  { contact: '' })\<close>\<close>

definition initResult :: jsobject where
  "initResult = foldl (\<lambda>acc platform. setProp acc platform []) [(''contact'', [])] socialPlatforms"

text \<open>\<^verbatim>\<open>Object.values(result).some(value => value)\<close>\<close>

definition hasSocialLinks :: "jsobject \<Rightarrow> bool" where
  "hasSocialLinks r = list_ex (\<lambda>v. v \<noteq> []) (map snd r)"

subsection \<open>The rendered page, as the queries of one attempt see it\<close>

text \<open>
  Every awaited call on the page may reject: a \<open>fallible\<close> value is \<open>Inl message\<close> for
  a rejection and \<open>Inr v\<close> for the value. A query for one element gives
  \<^verbatim>\<open>null\<close> (\<^const>\<open>None\<close>) when nothing matches, and so does reading an absent
  attribute.
\<close>

type_synonym 'a fallible = "string + 'a"

record anchor =
  href :: "string option fallible"
  textContent :: "string option fallible"

text \<open>The value \<^verbatim>\<open>JSON.parse\<close> returns. An object is its property list; only whether a
  number is zero is ever observed.\<close>

datatype json =
    JNull
  | JBool bool
  | JNum int
  | JStr string
  | JArr "json list"
  | JObj "(string \<times> json) list"

text \<open>
  The queries of one attempt, in the order of the code:
  \<^item> \<open>header\<close>, \<open>footer\<close>: \<^verbatim>\<open>page.$('header')\<close>, \<^verbatim>\<open>page.$('footer')\<close>, each element
    given by what \<^verbatim>\<open>element.$$('a[href]')\<close> returns on it;
  \<^item> \<open>jsonLdScripts\<close>: \<^verbatim>\<open>page.$$('script[type="application/ld+json"]')\<close>, each script
    given by \<^verbatim>\<open>JSON.parse(await script.textContent())\<close>, \<open>Inl\<close> when either throws;
  \<^item> \<open>relMeLinks\<close>: \<^verbatim>\<open>page.$$('link[rel~="me"]')\<close>, each by its \<^verbatim>\<open>href\<close> attribute;
  \<^item> \<open>twitterSite\<close>, \<open>ogSeeAlso\<close>: the two \<^verbatim>\<open>meta\<close> elements, each by its
    \<^verbatim>\<open>content\<close> attribute;
  \<^item> \<open>anchors\<close>: \<^verbatim>\<open>page.$$('a[href]')\<close>;
  \<^item> \<open>content\<close>: \<^verbatim>\<open>page.content()\<close>.
\<close>

record page =
  header :: "anchor list fallible option fallible"
  footer :: "anchor list fallible option fallible"
  jsonLdScripts :: "json fallible list fallible"
  relMeLinks :: "string option fallible list fallible"
  twitterSite :: "string option fallible option fallible"
  ogSeeAlso :: "string option fallible option fallible"
  anchors :: "anchor list fallible"
  content :: "string fallible"

subsection \<open>Extraction Strategies\<close>

text \<open>A step of an attempt: the result object as mutated so far, and the message of the
  exception when the step threw.\<close>

type_synonym step = "jsobject \<Rightarrow> string option \<times> jsobject"

definition andThen :: "string option \<times> jsobject \<Rightarrow> step \<Rightarrow> string option \<times> jsobject" where
  "andThen x f = (case x of (Some e, r) \<Rightarrow> (Some e, r) | (None, r) \<Rightarrow> f r)"

text \<open>The loop over \<^verbatim>\<open>socialPlatforms\<close> that every link-shaped source goes through:
  \<^verbatim>\<open>if (!result[platform] && lower.includes(`${platform}.com`)) result[platform] = value\<close>\<close>

definition matchPlatforms :: "string \<Rightarrow> string \<Rightarrow> jsobject \<Rightarrow> jsobject" where
  "matchPlatforms lower v r =
     foldl (\<lambda>r platform.
              if falsyProp r platform \<and> str_includes lower (platform @ ''.com'')
              then setProp r platform v else r)
       r socialPlatforms"

definition nullToLowerCase :: string where
  "nullToLowerCase = ''Cannot read properties of null (reading 'toLowerCase')''"

text \<open>The body of \<^verbatim>\<open>extractLinksFrom\<close>, over the links found. The link text is read only
  when the contact field is unresolved and the path does not already match.\<close>

fun scanAnchors :: "anchor list \<Rightarrow> step" where
  "scanAnchors [] r = (None, r)"
| "scanAnchors (link # links) r =
     (case href link of
        Inl e \<Rightarrow> (Some e, r)
      | Inr None \<Rightarrow> scanAnchors links r
      | Inr (Some h) \<Rightarrow>
          if h = [] then scanAnchors links r
          else
            (let hrefLower = toLowerCase h;
                 r1 = matchPlatforms hrefLower h r
             in if falsyProp r1 ''contact'' then
                  (if str_includes hrefLower ''/contact''
                   then scanAnchors links (setProp r1 ''contact'' h)
                   else (case textContent link of
                           Inl e \<Rightarrow> (Some e, r1)
                         | Inr None \<Rightarrow> (Some nullToLowerCase, r1)
                         | Inr (Some t) \<Rightarrow>
                             if str_includes (toLowerCase t) ''contact''
                             then scanAnchors links (setProp r1 ''contact'' h)
                             else scanAnchors links r1))
                else scanAnchors links r1))"

definition extractLinksFrom :: "anchor list fallible \<Rightarrow> step" where
  "extractLinksFrom element r =
     (case element of Inl e \<Rightarrow> (Some e, r) | Inr links \<Rightarrow> scanAnchors links r)"

text \<open>1. Header and footer: both are queried before either is scanned.\<close>

definition strategy1 :: "page \<Rightarrow> step" where
  "strategy1 p r =
     (case header p of
        Inl e \<Rightarrow> (Some e, r)
      | Inr h \<Rightarrow>
          (case footer p of
             Inl e \<Rightarrow> (Some e, r)
           | Inr f \<Rightarrow>
               andThen (case h of None \<Rightarrow> (None, r) | Some el \<Rightarrow> extractLinksFrom el r)
                 (\<lambda>r. case f of None \<Rightarrow> (None, r) | Some el \<Rightarrow> extractLinksFrom el r)))"

text \<open>2. Structured data. \<^verbatim>\<open>x.sameAs\<close> throws on \<^verbatim>\<open>null\<close>, is the property of an
  object, and \<^verbatim>\<open>undefined\<close> on anything else.\<close>

definition sameAsOf :: "json \<Rightarrow> json option fallible" where
  "sameAsOf j =
     (case j of
        JNull \<Rightarrow> Inl ''Cannot read properties of null (reading 'sameAs')''
      | JObj props \<Rightarrow> Inr (map_of props ''sameAs'')
      | _ \<Rightarrow> Inr None)"

definition truthy :: "json option \<Rightarrow> bool" where
  "truthy v =
     (case v of
        None \<Rightarrow> False
      | Some JNull \<Rightarrow> False
      | Some (JBool b) \<Rightarrow> b
      | Some (JNum n) \<Rightarrow> n \<noteq> 0
      | Some (JStr s) \<Rightarrow> s \<noteq> []
      | Some _ \<Rightarrow> True)"

text \<open>\<^verbatim>\<open>for (const link of links)\<close>: \<^verbatim>\<open>link.toLowerCase()\<close> throws on anything but a
  string, which ends the work on this script with what was assigned so far.\<close>

fun scanSameAs :: "json list \<Rightarrow> jsobject \<Rightarrow> jsobject" where
  "scanSameAs [] r = r"
| "scanSameAs (JStr link # links) r = scanSameAs links (matchPlatforms (toLowerCase link) link r)"
| "scanSameAs (_ # links) r = r"

text \<open>One script, inside its own \<^verbatim>\<open>try\<close>/\<^verbatim>\<open>catch\<close> that ignores every error:
  \<open>sameAsLinks\<close> is the list the inner loop runs over, empty when the script cannot be
  read or parsed, when \<^verbatim>\<open>jsonData\<close> is \<^verbatim>\<open>null\<close>, or when \<^verbatim>\<open>sameAs\<close> is falsy.\<close>

definition sameAsLinks :: "json fallible \<Rightarrow> json list" where
  "sameAsLinks script =
     (case script of
        Inl e \<Rightarrow> []
      | Inr jsonData \<Rightarrow>
          (case sameAsOf jsonData of
             Inl e \<Rightarrow> []
           | Inr direct \<Rightarrow>
               (let first = (case jsonData of JArr (x # xs) \<Rightarrow> Some x | _ \<Rightarrow> None);
                    sameAs =
                      (if \<not> truthy direct \<and> truthy first
                       then (case first of
                               Some x \<Rightarrow> (case sameAsOf x of Inl e \<Rightarrow> None | Inr v \<Rightarrow> v)
                             | None \<Rightarrow> None)
                       else direct)
                in if truthy sameAs
                   then (case sameAs of Some (JArr links) \<Rightarrow> links
                         | Some v \<Rightarrow> [v] | None \<Rightarrow> [])
                   else [])))"

definition scanScript :: "jsobject \<Rightarrow> json fallible \<Rightarrow> jsobject" where
  "scanScript r script = scanSameAs (sameAsLinks script) r"

definition strategy2 :: "page \<Rightarrow> step" where
  "strategy2 p r =
     (case jsonLdScripts p of
        Inl e \<Rightarrow> (Some e, r)
      | Inr scripts \<Rightarrow> (None, foldl scanScript r scripts))"

text \<open>3. \<^verbatim>\<open>rel="me"\<close> links.\<close>

fun scanRelMe :: "string option fallible list \<Rightarrow> step" where
  "scanRelMe [] r = (None, r)"
| "scanRelMe (link # links) r =
     (case link of
        Inl e \<Rightarrow> (Some e, r)
      | Inr None \<Rightarrow> scanRelMe links r
      | Inr (Some h) \<Rightarrow>
          if h = [] then scanRelMe links r
          else scanRelMe links (matchPlatforms (toLowerCase h) h r))"

definition strategy3 :: "page \<Rightarrow> step" where
  "strategy3 p r =
     (case relMeLinks p of Inl e \<Rightarrow> (Some e, r) | Inr links \<Rightarrow> scanRelMe links r)"

text \<open>4. Meta tags: \<^verbatim>\<open>twitter:site\<close>, whose attribute is read only while the twitter
  field is unresolved, then \<^verbatim>\<open>og:see_also\<close>, a comma-separated list.\<close>

definition metaTwitter :: "page \<Rightarrow> step" where
  "metaTwitter p r =
     (case twitterSite p of
        Inl e \<Rightarrow> (Some e, r)
      | Inr None \<Rightarrow> (None, r)
      | Inr (Some el) \<Rightarrow>
          if falsyProp r ''twitter'' then
            (case el of
               Inl e \<Rightarrow> (Some e, r)
             | Inr None \<Rightarrow> (None, r)
             | Inr (Some c) \<Rightarrow>
                 if c \<noteq> [] then (None, setProp r ''twitter'' (trim c)) else (None, r))
          else (None, r))"

definition metaSeeAlso :: "page \<Rightarrow> step" where
  "metaSeeAlso p r =
     (case ogSeeAlso p of
        Inl e \<Rightarrow> (Some e, r)
      | Inr None \<Rightarrow> (None, r)
      | Inr (Some el) \<Rightarrow>
          (case el of
             Inl e \<Rightarrow> (Some e, r)
           | Inr None \<Rightarrow> (None, r)
           | Inr (Some c) \<Rightarrow>
               if c \<noteq> [] then
                 (None, foldl (\<lambda>r link. matchPlatforms (toLowerCase link) (trim link) r) r
                          (splitOn CHR '','' c))
               else (None, r)))"

definition strategy4 :: "page \<Rightarrow> step" where
  "strategy4 p r = andThen (metaTwitter p r) (metaSeeAlso p)"

text \<open>5. The whole document, only while nothing has been found.\<close>

definition strategy5 :: "page \<Rightarrow> step" where
  "strategy5 p r = (if \<not> hasSocialLinks r then extractLinksFrom (anchors p) r else (None, r))"

text \<open>6. The raw markup, only while nothing has been found.\<close>

definition strategy6 :: "page \<Rightarrow> step" where
  "strategy6 p r =
     (if \<not> hasSocialLinks r then
        (case content p of
           Inl e \<Rightarrow> (Some e, r)
         | Inr html \<Rightarrow>
             (None,
              foldl (\<lambda>r platform.
                       if falsyProp r platform then
                         (case regexExec platform html of
                            Some m \<Rightarrow> setProp r platform m
                          | None \<Rightarrow> r)
                       else r)
                r socialPlatforms))
      else (None, r))"

subsection \<open>Extraction Pipeline: one attempt\<close>

text \<open>The body of the \<^verbatim>\<open>try\<close> block of one attempt, up to the trace line: the first
  exception ends it, with the result object as mutated so far.\<close>

definition pass :: "page \<Rightarrow> step" where
  "pass p r =
     andThen (andThen (andThen (andThen (andThen (strategy1 p r) (strategy2 p))
       (strategy3 p)) (strategy4 p)) (strategy5 p)) (strategy6 p)"

subsection \<open>Configuration, browser and observable events\<close>

text \<open>
  The options object of the caller: the three documented keys, each possibly absent, and
  \<open>others\<close> for any further key it carries. \<^verbatim>\<open>{ ...defaults, ...options }\<close> copies
  every key into the configuration.
\<close>

record options =
  headless :: "bool option"
  timeout :: "int option"
  maxRetries :: "int option"
  others :: "(string \<times> int) list"

record config =
  cfgHeadless :: bool
  cfgTimeout :: int
  cfgMaxRetries :: int
  cfgOthers :: "(string \<times> int) list"

definition mkConfig :: "int \<Rightarrow> options \<Rightarrow> config" where
  "mkConfig defaultRetries opts =
     \<lparr> cfgHeadless = (case headless opts of None \<Rightarrow> True | Some b \<Rightarrow> b),
       cfgTimeout = (case timeout opts of None \<Rightarrow> 30000 | Some t \<Rightarrow> t),
       cfgMaxRetries = (case maxRetries opts of None \<Rightarrow> defaultRetries | Some n \<Rightarrow> n),
       cfgOthers = others opts \<rparr>"

text \<open>
  The browser as the scraper meets it:
  \<^item> \<open>launch\<close>: the first rejection, if any, of \<^verbatim>\<open>chromium.launch\<close>,
    \<^verbatim>\<open>browser.newContext\<close> and \<^verbatim>\<open>context.newPage\<close>, given \<^verbatim>\<open>headless\<close>;
  \<^item> \<open>goto\<close>: the rejection, if any, of \<^verbatim>\<open>page.goto(url, { timeout })\<close>;
  \<^item> \<open>pages n\<close>: the page as the queries of attempt \<open>n + 1\<close> see it;
  \<^item> \<open>waits n\<close>: the rejection, if any, of the \<^verbatim>\<open>page.waitForTimeout\<close> that follows
    attempt \<open>n + 1\<close>;
  \<^item> \<open>close\<close>: the rejection, if any, of \<^verbatim>\<open>browser.close()\<close>.
\<close>

record 'p browser =
  launch :: "bool \<Rightarrow> string option"
  goto :: "string \<Rightarrow> int \<Rightarrow> string option"
  pages :: "nat \<Rightarrow> 'p"
  waits :: "nat \<Rightarrow> string option"
  close :: "string option"

text \<open>What a run prints and the waits it asks for, in order.\<close>

datatype event =
    LogStart string
  | LogAttempt nat
  | LogFound jsobject
  | LogAttemptError nat string
  | LogCaptcha
  | LogFatal string
  | WaitForTimeout nat

record run =
  result :: jsobject
  events :: "event list"

definition emit :: "event \<Rightarrow> run \<Rightarrow> run" where
  "emit e s = s\<lparr>events := events s @ [e]\<rparr>"

fun isAttempt :: "event \<Rightarrow> bool" where
  "isAttempt (LogAttempt n) = True"
| "isAttempt _ = False"

fun isWait :: "event \<Rightarrow> bool" where
  "isWait (WaitForTimeout ms) = True"
| "isWait _ = False"

fun isAttemptError :: "event \<Rightarrow> bool" where
  "isAttemptError (LogAttemptError n e) = True"
| "isAttemptError _ = False"

text \<open>Each pass starts with its attempt line, so the passes of a run are its attempt
  lines.\<close>

definition passes :: "event list \<Rightarrow> nat" where
  "passes evs = length (filter isAttempt evs)"

definition waitCalls :: "event list \<Rightarrow> nat list" where
  "waitCalls evs = concat (map (\<lambda>e. case e of WaitForTimeout ms \<Rightarrow> [ms] | _ \<Rightarrow> []) evs)"

text \<open>What the promise of a scraper settles to.\<close>

datatype outcome = Returned jsobject | Rejected string

text \<open>\<^verbatim>\<open>finally { await browser.close(); }\<close>: a rejection there replaces the outcome.\<close>

definition finallyClose :: "'p browser \<Rightarrow> outcome \<Rightarrow> outcome" where
  "finallyClose b out = (case close b of Some e \<Rightarrow> Rejected e | None \<Rightarrow> out)"

subsection \<open>Retry Controller\<close>

text \<open>
  \<^verbatim>\<open>while (attempts < config.maxRetries && !hasSocialLinks())\<close>. An exception of the
  pass, or of the wait, is caught by the handler of the attempt, which logs it; the loop
  then tests its condition again.
\<close>

function retryLoop :: "page browser \<Rightarrow> int \<Rightarrow> nat \<Rightarrow> run \<Rightarrow> run" where
  "retryLoop b maxR attempts s =
     (if int attempts < maxR \<and> \<not> hasSocialLinks (result s) then
        (let attempts' = Suc attempts;
             s1 = emit (LogAttempt attempts') s
         in case pass (pages b attempts) (result s1) of
              (Some e, r) \<Rightarrow>
                retryLoop b maxR attempts' (emit (LogAttemptError attempts' e) (s1\<lparr>result := r\<rparr>))
            | (None, r) \<Rightarrow>
                (let s2 = emit (LogFound r) (s1\<lparr>result := r\<rparr>)
                 in if hasSocialLinks r \<or> maxR \<le> int attempts' then s2
                    else
                      (let s3 = emit (WaitForTimeout 1000) s2
                       in case waits b attempts of
                            Some e \<Rightarrow> retryLoop b maxR attempts' (emit (LogAttemptError attempts' e) s3)
                          | None \<Rightarrow> retryLoop b maxR attempts' s3)))
      else s)"
  by pat_completeness auto
termination
  by (relation "measure (\<lambda>(b, maxR, attempts, s). nat (maxR - int attempts))") auto

subsection \<open>The invocation\<close>

definition normalizeUrl :: "string \<Rightarrow> string \<Rightarrow> string" where
  "normalizeUrl scheme target = (let url = trim target in if hasScheme url then url else scheme @ url)"

definition errorRecord :: "string \<Rightarrow> string \<Rightarrow> jsobject" where
  "errorRecord message url = [(''error'', message), (''url'', url)]"

definition extractSocialLinks :: "page browser \<Rightarrow> string \<Rightarrow> options \<Rightarrow> outcome \<times> event list" where
  "extractSocialLinks b targetUrl opts =
     (let cfg = mkConfig 30 opts;
          url = normalizeUrl ''http://'' targetUrl;
          s0 = \<lparr>result = initResult, events = [LogStart url]\<rparr>
      in case launch b (cfgHeadless cfg) of
           Some e \<Rightarrow> (Rejected e, events s0)
         | None \<Rightarrow>
             (case goto b url (cfgTimeout cfg) of
                Some e \<Rightarrow>
                  (finallyClose b (Returned (errorRecord e url)), events (emit (LogFatal e) s0))
              | None \<Rightarrow>
                  (let s = retryLoop b (cfgMaxRetries cfg) 0 s0
                   in (finallyClose b (Returned (result s)), events s))))"

section \<open>The Facebook-profile scraper\<close>

subsection \<open>The page, as the locators of one attempt see it\<close>

text \<open>A locator is lazy: creating it cannot fail, \<^verbatim>\<open>count()\<close> and \<^verbatim>\<open>innerText()\<close> can.\<close>

record locator =
  locCount :: "nat fallible"
  locText :: "string fallible"

text \<open>One contact block: its icon (\<^verbatim>\<open>img.count()\<close>, \<^verbatim>\<open>img.getAttribute('src')\<close>) and
  its first \<^verbatim>\<open>span[dir="auto"]\<close>.\<close>

record contactDiv =
  imgCount :: "nat fallible"
  imgSrc :: "string option fallible"
  spanElement :: locator

text \<open>A category element and its parent (\<^verbatim>\<open>xpath=..\<close>).\<close>

record categoryLocator =
  catCount :: "nat fallible"
  parentElement :: locator

record fbPage =
  pageNameElement :: locator
  likesElement :: locator
  followersElement :: locator
  spanElements :: "string fallible list fallible"
  contactDivs :: "contactDiv list fallible"
  categoryElement :: categoryLocator
  xpathResult :: categoryLocator

definition bindF :: "'a fallible \<Rightarrow> ('a \<Rightarrow> 'b fallible) \<Rightarrow> 'b fallible" where
  "bindF x f = (case x of Inl e \<Rightarrow> Inl e | Inr v \<Rightarrow> f v)"

text \<open>\<^verbatim>\<open>await el.count() > 0 ? await el.innerText() : ''\<close>\<close>

definition textOrEmpty :: "locator \<Rightarrow> string fallible" where
  "textOrEmpty el = bindF (locCount el) (\<lambda>n. if 0 < n then locText el else Inr [])"

text \<open>\<^verbatim>\<open>/^[\w.-]+\.[a-z]{2,}$/i\<close>: the letters after the last dot, at least two, and a
  non-empty run of \<^verbatim>\<open>[\w.-]\<close> before it.\<close>

definition isLetter :: "char \<Rightarrow> bool" where
  "isLetter c = (inRange 65 90 c \<or> inRange 97 122 c)"

definition looksLikeWebsite :: "string \<Rightarrow> bool" where
  "looksLikeWebsite s =
     (let tld = rev (takeWhile (\<lambda>c. c \<noteq> CHR ''.'') (rev s));
          host = take (length s - length tld - 1) s
      in length tld < length s \<and> 2 \<le> length tld \<and> list_all isLetter tld
         \<and> host \<noteq> [] \<and> list_all (\<lambda>c. isWordChar c \<or> c = CHR ''.'' \<or> c = CHR ''-'') host)"

text \<open>The loop over the \<^verbatim>\<open>span[dir="auto"]\<close> elements, on the pair (email, website).\<close>

fun scanSpans :: "string fallible list \<Rightarrow> string \<times> string \<Rightarrow> (string \<times> string) fallible" where
  "scanSpans [] acc = Inr acc"
| "scanSpans (span # spans) (email, website) =
     (case span of
        Inl e \<Rightarrow> Inl e
      | Inr text \<Rightarrow>
          (let trimmedText = trim text;
               email' = (if email = [] \<and> str_includes trimmedText ''@''
                            \<and> str_includes trimmedText ''.''
                         then trimmedText else email);
               website' = (if website = [] \<and> looksLikeWebsite trimmedText
                           then trimmedText else website)
           in scanSpans spans (email', website')))"

text \<open>The loop over the contact blocks, on the pair (phone, address).\<close>

fun scanContactDivs :: "contactDiv list \<Rightarrow> string \<times> string \<Rightarrow> (string \<times> string) fallible" where
  "scanContactDivs [] acc = Inr acc"
| "scanContactDivs (d # ds) (phone, address) =
     bindF (imgCount d) (\<lambda>n.
       if n = 0 then scanContactDivs ds (phone, address)
       else
         bindF (imgSrc d) (\<lambda>src.
           let src' = (case src of None \<Rightarrow> [] | Some v \<Rightarrow> v)
           in bindF (locCount (spanElement d)) (\<lambda>m.
                if m = 0 then scanContactDivs ds (phone, address)
                else
                  bindF (locText (spanElement d)) (\<lambda>spanText.
                    let phone' = (if phone = [] \<and> str_includes src' ''Dc7-7AgwkwS.png''
                                  then trim spanText else phone);
                        address' = (if address = [] \<and> str_includes src' ''8k_Y-oVxbuU.png''
                                    then trim spanText else address)
                    in scanContactDivs ds (phone', address')))))"

text \<open>\<^verbatim>\<open>parentText.replace(/Page\s*\<cdot>\s*/, '')\<close>: the first place where the pattern
  matches is cut out. The middle dot is the code unit 0xB7.\<close>

definition pagePrefixAt :: "string \<Rightarrow> string option" where
  "pagePrefixAt s =
     (if prefix ''Page'' s then
        (case dropWhile isWhiteSpace (drop 4 s) of
           [] \<Rightarrow> None
         | c # rest \<Rightarrow> if c = CHR 0xB7 then Some (dropWhile isWhiteSpace rest) else None)
      else None)"

fun removePagePrefix :: "string \<Rightarrow> string" where
  "removePagePrefix [] = []"
| "removePagePrefix (c # cs) =
     (case pagePrefixAt (c # cs) of
        Some rest \<Rightarrow> rest
      | None \<Rightarrow> c # removePagePrefix cs)"

definition categoryFrom :: "categoryLocator \<Rightarrow> string fallible" where
  "categoryFrom el =
     bindF (locCount (parentElement el)) (\<lambda>n.
       if 0 < n then bindF (locText (parentElement el)) (\<lambda>parentText.
                       Inr (trim (removePagePrefix parentText)))
       else Inr [])"

definition findCategory :: "fbPage \<Rightarrow> string fallible" where
  "findCategory p =
     bindF (catCount (categoryElement p)) (\<lambda>n.
       if 0 < n then categoryFrom (categoryElement p)
       else bindF (catCount (xpathResult p)) (\<lambda>m.
              if 0 < m then categoryFrom (xpathResult p) else Inr []))"

subsection \<open>One attempt\<close>

text \<open>The body of the \<^verbatim>\<open>try\<close> block: \<open>Inl\<close> when it throws, \<open>Inr None\<close> when nothing
  was found, \<open>Inr (Some profileInfo)\<close> when the attempt ends in \<^verbatim>\<open>break\<close>.\<close>

definition fbPass :: "fbPage \<Rightarrow> jsobject option fallible" where
  "fbPass p =
     bindF (textOrEmpty (pageNameElement p)) (\<lambda>pageName.
     bindF (textOrEmpty (likesElement p)) (\<lambda>pageLikes.
     bindF (textOrEmpty (followersElement p)) (\<lambda>pageFollowers.
     bindF (spanElements p) (\<lambda>spans.
     bindF (scanSpans spans ([], [])) (\<lambda>(email, website).
     bindF (contactDivs p) (\<lambda>divs.
     bindF (scanContactDivs divs ([], [])) (\<lambda>(phone, address).
     bindF (findCategory p) (\<lambda>category.
       if pageName \<noteq> [] \<or> pageLikes \<noteq> [] \<or> pageFollowers \<noteq> [] \<or> phone \<noteq> []
          \<or> email \<noteq> [] \<or> address \<noteq> [] \<or> website \<noteq> [] \<or> category \<noteq> []
       then Inr (Some [(''pageName'', pageName), (''pageLikes'', pageLikes),
                       (''pageFollowers'', pageFollowers), (''phone'', phone),
                       (''email'', email), (''address'', address),
                       (''website'', website), (''category'', category)])
       else Inr None))))))))"

definition emptyProfile :: jsobject where
  "emptyProfile = [(''pageName'', []), (''pageLikes'', []), (''pageFollowers'', []),
                   (''phone'', []), (''email'', []), (''address'', []),
                   (''website'', []), (''category'', [])]"

subsection \<open>Retry loop\<close>

text \<open>
  \<^verbatim>\<open>while (retries < config.maxRetries && !profileInfo)\<close>. An attempt that finds
  something leaves by \<^verbatim>\<open>break\<close>, so \<^verbatim>\<open>profileInfo\<close> is \<^verbatim>\<open>null\<close> whenever the condition
  is tested. The wait stands after the handler of the attempt: its rejection leaves the
  loop as an exception (\<open>Inl\<close>).
\<close>

function fbRetryLoop ::
  "fbPage browser \<Rightarrow> int \<Rightarrow> nat \<Rightarrow> event list \<Rightarrow> jsobject option fallible \<times> event list" where
  "fbRetryLoop b maxR retries evs =
     (if int retries < maxR then
        (let evs1 = evs @ [LogAttempt (retries + 1)]
         in case fbPass (pages b retries) of
              Inr (Some profileInfo) \<Rightarrow> (Inr (Some profileInfo), evs1)
            | attempt \<Rightarrow>
                (let evs2 = (case attempt of
                               Inl e \<Rightarrow> evs1 @ [LogAttemptError (retries + 1) e]
                             | _ \<Rightarrow> evs1);
                     evs3 = evs2 @ [WaitForTimeout 1000]
                 in case waits b retries of
                      Some e \<Rightarrow> (Inl e, evs3)
                    | None \<Rightarrow> fbRetryLoop b maxR (Suc retries) evs3))
      else (Inr None, evs))"
  by pat_completeness auto
termination
  by (relation "measure (\<lambda>(b, maxR, retries, evs). nat (maxR - int retries))") auto

subsection \<open>Bot-Detection Guard and the invocation\<close>

text \<open>What the guard reads after navigation: \<^verbatim>\<open>page.textContent('body')\<close> and
  \<^verbatim>\<open>page.locator('iframe[src*="recaptcha"]').count()\<close>.\<close>

record guardView =
  bodyText :: "string option fallible"
  recaptchaCount :: "nat fallible"

definition nullIncludes :: string where
  "nullIncludes = ''Cannot read properties of null (reading 'includes')''"

text \<open>The condition of the guard, with the short circuit of \<^verbatim>\<open>||\<close>: the iframe is
  counted only when neither phrase is in the text.\<close>

definition captchaDetected :: "guardView \<Rightarrow> bool fallible" where
  "captchaDetected g =
     (case bodyText g of
        Inl e \<Rightarrow> Inl e
      | Inr None \<Rightarrow> Inl nullIncludes
      | Inr (Some text) \<Rightarrow>
          if str_includes text ''unusual traffic'' \<or> str_includes text ''not a robot''
          then Inr True
          else bindF (recaptchaCount g) (\<lambda>n. Inr (0 < n)))"

text \<open>\<^verbatim>\<open>url.split(/\s+/).slice(0, 10).join(" ")\<close> after the scheme is put in front.\<close>

definition normalizeFacebookUrl :: "string \<Rightarrow> string" where
  "normalizeFacebookUrl target = joinSp (take 10 (splitWs (normalizeUrl ''https://'' target)))"

definition scrapeFacebookProfile ::
  "fbPage browser \<Rightarrow> guardView \<Rightarrow> string \<Rightarrow> options \<Rightarrow> outcome \<times> event list" where
  "scrapeFacebookProfile b g facebookUrl opts =
     (let cfg = mkConfig 20 opts;
          url = normalizeFacebookUrl facebookUrl;
          evs0 = [LogStart url];
          fatal = (\<lambda>e evs. (finallyClose b (Returned (errorRecord e url)), evs @ [LogFatal e]))
      in case launch b (cfgHeadless cfg) of
           Some e \<Rightarrow> (Rejected e, evs0)
         | None \<Rightarrow>
             (case goto b url (cfgTimeout cfg) of
                Some e \<Rightarrow> fatal e evs0
              | None \<Rightarrow>
                  (case captchaDetected g of
                     Inl e \<Rightarrow> fatal e evs0
                   | Inr True \<Rightarrow>
                       (finallyClose b (Returned (errorRecord ''captcha'' url)),
                        evs0 @ [LogCaptcha])
                   | Inr False \<Rightarrow>
                       (case fbRetryLoop b (cfgMaxRetries cfg) 0 evs0 of
                          (Inl e, evs) \<Rightarrow> fatal e evs
                        | (Inr None, evs) \<Rightarrow> (finallyClose b (Returned emptyProfile), evs)
                        | (Inr (Some profileInfo), evs) \<Rightarrow>
                            (finallyClose b (Returned profileInfo), evs)))))"

section \<open>The local-services scraper\<close>

text \<open>
  The browser as \<^verbatim>\<open>scrapeLocalServices\<close> meets it. The function has no handler: every
  rejection rejects its promise.
  \<^item> \<open>lsLaunch\<close>: the first rejection of launch, \<^verbatim>\<open>newContext\<close> and \<^verbatim>\<open>newPage\<close>;
  \<^item> \<open>lsGoto\<close>: the rejection of \<^verbatim>\<open>pageObj.goto\<close>, given the query and the page number
    the URL is built from;
  \<^item> \<open>lsBodyText\<close>: \<^verbatim>\<open>pageObj.textContent('body')\<close>;
  \<^item> \<open>lsRecaptcha\<close>: whether \<^verbatim>\<open>pageObj.$('iframe[src*="recaptcha"]')\<close> finds an element;
  \<^item> \<open>lsHeights k\<close>, \<open>lsWaits k\<close>: the scroll height that round \<open>k\<close> of the scroll loop
    reads, and the rejection of the wait after it;
  \<^item> \<open>lsResults\<close>: what the in-page function returns, the listings and their total;
  \<^item> \<open>lsClose\<close>: the rejection of \<^verbatim>\<open>browser.close()\<close>.
\<close>

record localBrowser =
  lsLaunch :: "string option"
  lsGoto :: "string \<Rightarrow> int \<Rightarrow> string option"
  lsBodyText :: "string option fallible"
  lsRecaptcha :: "bool fallible"
  lsHeights :: "nat \<Rightarrow> int fallible"
  lsWaits :: "nat \<Rightarrow> string option"
  lsResults :: "(jsobject list \<times> int) fallible"
  lsClose :: "string option"

datatype localOutcome =
    LocalReturned jsobject
  | LocalResults "jsobject list" int
  | LocalRejected string

text \<open>\<^verbatim>\<open>while (true)\<close>: scroll until the height stops changing. The loop need not end;
  \<^const>\<open>None\<close> is the run that never leaves it.\<close>

partial_function (option) scrollLoop :: "localBrowser \<Rightarrow> nat \<Rightarrow> int \<Rightarrow> string option option" where
  "scrollLoop b k prevHeight =
     (case lsHeights b k of
        Inl e \<Rightarrow> Some (Some e)
      | Inr currentHeight \<Rightarrow>
          if currentHeight = prevHeight then Some None
          else (case lsWaits b k of
                  Some e \<Rightarrow> Some (Some e)
                | None \<Rightarrow> scrollLoop b (Suc k) currentHeight))"

definition scrapeLocalServices :: "localBrowser \<Rightarrow> string \<Rightarrow> int \<Rightarrow> localOutcome option" where
  "scrapeLocalServices b query pageNo =
     (case lsLaunch b of
        Some e \<Rightarrow> Some (LocalRejected e)
      | None \<Rightarrow>
          (case lsGoto b query pageNo of
             Some e \<Rightarrow> Some (LocalRejected e)
           | None \<Rightarrow>
               (case lsBodyText b of
                  Inl e \<Rightarrow> Some (LocalRejected e)
                | Inr None \<Rightarrow> Some (LocalRejected nullIncludes)
                | Inr (Some text) \<Rightarrow>
                    (let hasCaptcha = (str_includes text ''unusual traffic''
                                       \<or> str_includes text ''not a robot'')
                     in case lsRecaptcha b of
                          Inl e \<Rightarrow> Some (LocalRejected e)
                        | Inr hasRecaptcha \<Rightarrow>
                            if hasCaptcha \<or> hasRecaptcha then
                              (case lsClose b of
                                 Some e \<Rightarrow> Some (LocalRejected e)
                               | None \<Rightarrow> Some (LocalReturned [(''error'', ''captcha'')]))
                            else
                              (case scrollLoop b 0 0 of
                                 None \<Rightarrow> None
                               | Some (Some e) \<Rightarrow> Some (LocalRejected e)
                               | Some None \<Rightarrow>
                                   (case lsResults b of
                                      Inl e \<Rightarrow> Some (LocalRejected e)
                                    | Inr (listings, totalResults) \<Rightarrow>
                                        (case lsClose b of
                                           Some e \<Rightarrow> Some (LocalRejected e)
                                         | None \<Rightarrow> Some (LocalResults listings totalResults))))))))"

section \<open>Notions used by the properties\<close>

subsection \<open>Fields and the first-found-wins order\<close>

text \<open>The Field Set of the social-link extractor, in the key order of its result
  object.\<close>

definition fieldSet :: "string list" where "fieldSet = ''contact'' # socialPlatforms"

text \<open>Every field of the Field Set holds a resolved value.\<close>

definition allResolved :: "jsobject \<Rightarrow> bool" where
  "allResolved r = list_all (\<lambda>k. \<not> falsyProp r k) (''contact'' # socialPlatforms)"

text \<open>
  \<open>grows r r'\<close>: \<open>r'\<close> comes from \<open>r\<close> by first-found-wins assignments to fields of
  the Field Set. A field resolved in \<open>r\<close> has the same value in \<open>r'\<close>; when \<open>r\<close> has the
  keys of the Field Set the keys stay as they are; a fully resolved \<open>r\<close> is not changed.
\<close>

definition grows :: "jsobject \<Rightarrow> jsobject \<Rightarrow> bool" where
  "grows r r' =
     ((\<forall>k. \<not> falsyProp r k \<longrightarrow> map_of r' k = map_of r k)
      \<and> (set fieldSet \<subseteq> set (map fst r) \<longrightarrow> map fst r' = map fst r)
      \<and> (allResolved r \<longrightarrow> r' = r))"

subsection \<open>The four ways through one round of the retry loop\<close>

text \<open>The state after a round whose pass threw \<open>e\<close>, after a round that ends the loop,
  and after a round followed by the wait (\<open>w\<close> is the rejection of the wait, if any).\<close>

definition afterThrow :: "nat \<Rightarrow> run \<Rightarrow> string \<Rightarrow> jsobject \<Rightarrow> run" where
  "afterThrow a s e r =
     \<lparr>result = r, events = events s @ [LogAttempt (Suc a), LogAttemptError (Suc a) e]\<rparr>"

definition afterBreak :: "nat \<Rightarrow> run \<Rightarrow> jsobject \<Rightarrow> run" where
  "afterBreak a s r = \<lparr>result = r, events = events s @ [LogAttempt (Suc a), LogFound r]\<rparr>"

definition afterWait :: "nat \<Rightarrow> run \<Rightarrow> jsobject \<Rightarrow> string option \<Rightarrow> run" where
  "afterWait a s r w =
     \<lparr>result = r,
      events = events s @ [LogAttempt (Suc a), LogFound r, WaitForTimeout 1000]
               @ (case w of Some e \<Rightarrow> [LogAttemptError (Suc a) e] | None \<Rightarrow> [])\<rparr>"

text \<open>The number of attempt errors a run logged.\<close>

definition errorCount :: "event list \<Rightarrow> nat" where
  "errorCount evs = length (filter isAttemptError evs)"

text \<open>
  What the loop started in state \<open>s\<close> with counter \<open>a\<close> adds to the events, when it
  ends in state \<open>f\<close>: at most \<open>N - a\<close> passes, all of them when nothing was found; waits
  of 1000 ms only; and, between the passes, at most one wait each, exactly one when no
  attempt logged an error.
\<close>

definition loopInv :: "int \<Rightarrow> nat \<Rightarrow> run \<Rightarrow> run \<Rightarrow> bool" where
  "loopInv N a s f =
     (\<exists>ext. events f = events s @ ext
        \<and> passes ext \<le> nat (N - int a)
        \<and> (\<not> hasSocialLinks (result f) \<longrightarrow> passes ext = nat (N - int a))
        \<and> list_all (\<lambda>ms. ms = 1000) (waitCalls ext)
        \<and> (passes ext = 0 \<longrightarrow> f = s)
        \<and> (1 \<le> passes ext \<longrightarrow>
             length (waitCalls ext) + 1 \<le> passes ext
             \<and> passes ext \<le> length (waitCalls ext) + errorCount ext + 1))"

text \<open>The events of one round of the Facebook loop that does not find a profile, and what
  that loop adds to the events.\<close>

definition fbAttemptEvents :: "nat \<Rightarrow> jsobject option fallible \<Rightarrow> event list" where
  "fbAttemptEvents k attempt =
     LogAttempt (Suc k)
     # (case attempt of Inl e \<Rightarrow> [LogAttemptError (Suc k) e] | Inr v \<Rightarrow> [])
     @ [WaitForTimeout 1000]"

definition fbInv :: "int \<Rightarrow> nat \<Rightarrow> event list \<Rightarrow> jsobject option fallible \<times> event list \<Rightarrow> bool" where
  "fbInv N k evs out =
     (\<exists>ext. snd out = evs @ ext
        \<and> passes ext \<le> nat (N - int k)
        \<and> list_all (\<lambda>ms. ms = 1000) (waitCalls ext)
        \<and> (fst out = Inr None \<longrightarrow>
              passes ext = nat (N - int k) \<and> length (waitCalls ext) = passes ext))"

subsection \<open>A page without matching signals\<close>

text \<open>
  A string mentions a platform when its lower-case form contains \<^verbatim>\<open>PLATFORM.com\<close>. A
  source of the page is quiet when its query succeeds and nothing in it is a candidate
  for a field: no link mentions a platform, no link is a contact link by path or text,
  the \<^verbatim>\<open>twitter:site\<close> content is blank, the markup has no match of the pattern.
\<close>

definition mentionsPlatform :: "string \<Rightarrow> bool" where
  "mentionsPlatform s =
     list_ex (\<lambda>platform. str_includes (toLowerCase s) (platform @ ''.com'')) socialPlatforms"

definition quietAnchor :: "anchor \<Rightarrow> bool" where
  "quietAnchor a =
     (case href a of
        Inl e \<Rightarrow> False
      | Inr None \<Rightarrow> True
      | Inr (Some h) \<Rightarrow>
          h = [] \<or>
          (\<not> mentionsPlatform h \<and> \<not> str_includes (toLowerCase h) ''/contact''
           \<and> (case textContent a of
                 Inr (Some t) \<Rightarrow> \<not> str_includes (toLowerCase t) ''contact''
               | _ \<Rightarrow> False)))"

definition quietAnchors :: "anchor list fallible \<Rightarrow> bool" where
  "quietAnchors el = (case el of Inl e \<Rightarrow> False | Inr links \<Rightarrow> list_all quietAnchor links)"

definition quietRegion :: "anchor list fallible option fallible \<Rightarrow> bool" where
  "quietRegion q = (case q of Inl e \<Rightarrow> False | Inr None \<Rightarrow> True | Inr (Some el) \<Rightarrow> quietAnchors el)"

definition quietJson :: "json \<Rightarrow> bool" where
  "quietJson link = (case link of JStr s \<Rightarrow> \<not> mentionsPlatform s | _ \<Rightarrow> True)"

definition quietScripts :: "json fallible list fallible \<Rightarrow> bool" where
  "quietScripts q =
     (case q of Inl e \<Rightarrow> False
      | Inr scripts \<Rightarrow> list_all (\<lambda>script. list_all quietJson (sameAsLinks script)) scripts)"

definition quietRelMe :: "string option fallible list fallible \<Rightarrow> bool" where
  "quietRelMe q =
     (case q of Inl e \<Rightarrow> False
      | Inr links \<Rightarrow>
          list_all (\<lambda>link. case link of Inl e \<Rightarrow> False | Inr None \<Rightarrow> True
                           | Inr (Some h) \<Rightarrow> \<not> mentionsPlatform h) links)"

definition quietTwitterSite :: "string option fallible option fallible \<Rightarrow> bool" where
  "quietTwitterSite q =
     (case q of Inl e \<Rightarrow> False | Inr None \<Rightarrow> True
      | Inr (Some el) \<Rightarrow> (case el of Inl e \<Rightarrow> False | Inr None \<Rightarrow> True
                           | Inr (Some c) \<Rightarrow> trim c = []))"

definition quietSeeAlso :: "string option fallible option fallible \<Rightarrow> bool" where
  "quietSeeAlso q =
     (case q of Inl e \<Rightarrow> False | Inr None \<Rightarrow> True
      | Inr (Some el) \<Rightarrow> (case el of Inl e \<Rightarrow> False | Inr None \<Rightarrow> True
                           | Inr (Some c) \<Rightarrow>
                               list_all (\<lambda>link. \<not> mentionsPlatform link) (splitOn CHR '','' c)))"

definition quietElements :: "page \<Rightarrow> bool" where
  "quietElements p =
     (quietRegion (header p) \<and> quietRegion (footer p) \<and> quietScripts (jsonLdScripts p)
      \<and> quietRelMe (relMeLinks p) \<and> quietTwitterSite (twitterSite p)
      \<and> quietSeeAlso (ogSeeAlso p) \<and> quietAnchors (anchors p))"

definition quietMarkup :: "page \<Rightarrow> bool" where
  "quietMarkup p =
     (case content p of Inl e \<Rightarrow> False
      | Inr html \<Rightarrow> list_all (\<lambda>platform. regexExec platform html = None) socialPlatforms)"

definition noSignals :: "page \<Rightarrow> bool" where
  "noSignals p = (quietElements p \<and> quietMarkup p)"

text \<open>Strategies 1 to 5 of a pass, in order.\<close>

definition firstFive :: "page \<Rightarrow> step" where
  "firstFive p r =
     andThen (andThen (andThen (andThen (strategy1 p r) (strategy2 p))
       (strategy3 p)) (strategy4 p)) (strategy5 p)"

text \<open>The browser starts and the navigation of the social-link extractor succeeds; the
  state its retry loop then ends in.\<close>

definition socialStarts :: "page browser \<Rightarrow> string \<Rightarrow> options \<Rightarrow> bool" where
  "socialStarts b targetUrl opts =
     (launch b (cfgHeadless (mkConfig 30 opts)) = None
      \<and> goto b (normalizeUrl ''http://'' targetUrl) (cfgTimeout (mkConfig 30 opts)) = None)"

definition socialLoop :: "page browser \<Rightarrow> string \<Rightarrow> options \<Rightarrow> run" where
  "socialLoop b targetUrl opts =
     retryLoop b (cfgMaxRetries (mkConfig 30 opts)) 0
       \<lparr>result = initResult, events = [LogStart (normalizeUrl ''http://'' targetUrl)]\<rparr>"

text \<open>The browser starts, the navigation of the Facebook scraper succeeds and the guard
  does not fire; the outcome of its retry loop then.\<close>

definition fbStarts :: "fbPage browser \<Rightarrow> guardView \<Rightarrow> string \<Rightarrow> options \<Rightarrow> bool" where
  "fbStarts b g facebookUrl opts =
     (launch b (cfgHeadless (mkConfig 20 opts)) = None
      \<and> goto b (normalizeFacebookUrl facebookUrl) (cfgTimeout (mkConfig 20 opts)) = None
      \<and> captchaDetected g = Inr False)"

definition fbLoop :: "fbPage browser \<Rightarrow> string \<Rightarrow> options \<Rightarrow> jsobject option fallible \<times> event list" where
  "fbLoop b facebookUrl opts =
     fbRetryLoop b (cfgMaxRetries (mkConfig 20 opts)) 0 [LogStart (normalizeFacebookUrl facebookUrl)]"

text \<open>Strategies 1 to 4 of a pass, in order.\<close>

definition firstFour :: "page \<Rightarrow> step" where
  "firstFour p r =
     andThen (andThen (andThen (strategy1 p r) (strategy2 p)) (strategy3 p)) (strategy4 p)"

subsection \<open>The rounds of a run, as its events show them\<close>

text \<open>
  The events of the retry loop of the social-link extractor, round by round. A round is
  the attempt line followed by one of:
  \<^item> the error of the attempt: the pass threw, and the next round, if any, follows at
    once, with no wait between;
  \<^item> the trace line and nothing more: the last round;
  \<^item> the trace line and a wait of 1000 ms, perhaps with the error of a rejected wait:
    then another round follows.
\<close>

fun socialRounds :: "event list \<Rightarrow> bool" where
  "socialRounds [] = True"
| "socialRounds (LogAttempt k # LogAttemptError k' e # rest) = (k' = k \<and> socialRounds rest)"
| "socialRounds [LogAttempt k, LogFound r] = True"
| "socialRounds (LogAttempt k # LogFound r # WaitForTimeout ms # LogAttemptError k' e # rest) =
     (ms = 1000 \<and> k' = k \<and> rest \<noteq> [] \<and> socialRounds rest)"
| "socialRounds (LogAttempt k # LogFound r # WaitForTimeout ms # rest) =
     (ms = 1000 \<and> rest \<noteq> [] \<and> socialRounds rest)"
| "socialRounds _ = False"

text \<open>
  The events of the retry loop of the Facebook scraper. A round that finds a profile is
  its attempt line alone and ends the loop. Every other round is the attempt line,
  perhaps the error of the attempt, and a wait of 1000 ms; after the wait comes the next
  round, the end of the loop, or the fatal error of a rejected wait.
\<close>

fun isFatalEnd :: "event list \<Rightarrow> bool" where
  "isFatalEnd [LogFatal e] = True"
| "isFatalEnd _ = False"

fun fbRounds :: "event list \<Rightarrow> bool" where
  "fbRounds [] = True"
| "fbRounds [LogAttempt k] = True"
| "fbRounds (LogAttempt k # LogAttemptError k' e # WaitForTimeout ms # rest) =
     (k' = k \<and> ms = 1000 \<and> (isFatalEnd rest \<or> fbRounds rest))"
| "fbRounds (LogAttempt k # WaitForTimeout ms # rest) =
     (ms = 1000 \<and> (isFatalEnd rest \<or> fbRounds rest))"
| "fbRounds _ = False"

section \<open>Sample pages, browsers and options\<close>

text \<open>A page on which no query finds anything, and an empty markup.\<close>

definition blankPage :: page where
  "blankPage =
     \<lparr>header = Inr None, footer = Inr None, jsonLdScripts = Inr [], relMeLinks = Inr [],
      twitterSite = Inr None, ogSeeAlso = Inr None, anchors = Inr [], content = Inr []\<rparr>"

text \<open>A browser that starts, navigates, waits and closes without a rejection and shows
  the same page at every attempt.\<close>

definition steadyBrowser :: "'p \<Rightarrow> 'p browser" where
  "steadyBrowser p =
     \<lparr>launch = (\<lambda>h. None), goto = (\<lambda>url t. None), pages = (\<lambda>n. p),
      waits = (\<lambda>n. None), close = None\<rparr>"

text \<open>The options object \<^verbatim>\<open>{}\<close>.\<close>

definition noOptions :: options where
  "noOptions = \<lparr>headless = None, timeout = None, maxRetries = None, others = []\<rparr>"

text \<open>A page with links, structured data and metadata, none of them about a platform or
  a contact page.\<close>

definition aboutLink :: anchor where
  "aboutLink = \<lparr>href = Inr (Some ''/about''), textContent = Inr (Some ''About us'')\<rparr>"

definition quietPage :: page where
  "quietPage =
     \<lparr>header = Inr (Some (Inr [aboutLink])),
      footer = Inr None,
      jsonLdScripts = Inr [Inr (JObj [(''sameAs'', JArr [JStr ''https://example.org/acme''])]),
                           Inl ''Unexpected token''],
      relMeLinks = Inr [Inr (Some ''https://social.example.org/@acme'')],
      twitterSite = Inr None,
      ogSeeAlso = Inr (Some (Inr (Some ''https://example.org/a,https://example.org/b''))),
      anchors = Inr [aboutLink],
      content = Inr ''<body><a href='/about'>About us</a></body>''\<rparr>"

text \<open>A page whose first query of every attempt is rejected.\<close>

definition closingPage :: page where
  "closingPage = blankPage\<lparr>header := Inl ''Target closed''\<rparr>"

text \<open>A result with only facebook resolved, a result with every field resolved, and a
  page whose header offers another facebook link and an instagram link.\<close>

definition oneFound :: jsobject where
  "oneFound = setProp initResult ''facebook'' ''https://facebook.com/first''"

definition fullRecord :: jsobject where
  "fullRecord =
     [(''contact'', ''https://facebook.com/acme/contact''),
      (''facebook'', ''https://facebook.com/acme/contact''),
      (''instagram'', ''https://instagram.com/acme''),
      (''twitter'', ''https://twitter.com/acme''),
      (''youtube'', ''https://youtube.com/acme''),
      (''linkedin'', ''https://linkedin.com/company/acme'')]"

definition linkTo :: "string \<Rightarrow> anchor" where
  "linkTo h = \<lparr>href = Inr (Some h), textContent = Inr (Some [])\<rparr>"

definition rivalPage :: page where
  "rivalPage =
     blankPage\<lparr>header := Inr (Some (Inr [linkTo ''https://facebook.com/second'',
                                           linkTo ''https://instagram.com/acme'']))\<rparr>"

text \<open>Facebook pages: one on which no locator finds anything, one with a page name, an
  email address and a website; and a guard view without any sign of a challenge.\<close>

definition absent :: locator where
  "absent = \<lparr>locCount = Inr 0, locText = Inl ''Timeout 30000ms exceeded''\<rparr>"

definition absentCategory :: categoryLocator where
  "absentCategory = \<lparr>catCount = Inr 0, parentElement = absent\<rparr>"

definition emptyFbPage :: fbPage where
  "emptyFbPage =
     \<lparr>pageNameElement = absent, likesElement = absent, followersElement = absent,
      spanElements = Inr [], contactDivs = Inr [],
      categoryElement = absentCategory, xpathResult = absentCategory\<rparr>"

definition bakeryFbPage :: fbPage where
  "bakeryFbPage =
     emptyFbPage\<lparr>pageNameElement := \<lparr>locCount = Inr 1, locText = Inr ''Acme Bakery''\<rparr>,
                  spanElements := Inr [Inr '' hello@acme.example '', Inr ''acme.example'']\<rparr>"

definition bakeryProfile :: jsobject where
  "bakeryProfile =
     [(''pageName'', ''Acme Bakery''), (''pageLikes'', []), (''pageFollowers'', []),
      (''phone'', []), (''email'', ''hello@acme.example''), (''address'', []),
      (''website'', ''acme.example''), (''category'', [])]"

definition clearGuard :: guardView where
  "clearGuard = \<lparr>bodyText = Inr (Some ''Acme Bakery''), recaptchaCount = Inr 0\<rparr>"

text \<open>A page whose footer links to an instagram profile.\<close>

definition instagramPage :: page where
  "instagramPage = blankPage\<lparr>footer := Inr (Some (Inr [linkTo ''https://instagram.com/acme'']))\<rparr>"

text \<open>The options \<^verbatim>\<open>{ maxRetries: 2 }\<close>.\<close>

definition twoAttempts :: options where
  "twoAttempts = noOptions\<lparr>maxRetries := Some 2\<rparr>"

text \<open>The options \<^verbatim>\<open>{ maxRetries: 0 }\<close> and \<^verbatim>\<open>{ maxRetries: 1 }\<close>.\<close>

definition noAttempts :: options where
  "noAttempts = noOptions\<lparr>maxRetries := Some 0\<rparr>"

definition oneAttempt :: options where
  "oneAttempt = noOptions\<lparr>maxRetries := Some 1\<rparr>"

text \<open>The options \<^verbatim>\<open>{ maxRetries: 2, delayMs: 5 }\<close>.\<close>

definition fiveMsDelay :: options where
  "fiveMsDelay = noOptions\<lparr>maxRetries := Some 2, others := [(''delayMs'', 5)]\<rparr>"



text \<open>A page whose header resolves all six fields and whose \<^verbatim>\<open>rel="me"\<close> query is
  rejected; a page with an instagram link outside header and footer.\<close>

definition fullHeaderPage :: page where
  "fullHeaderPage =
     blankPage\<lparr>header := Inr (Some (Inr [linkTo ''https://facebook.com/acme/contact'',
                                           linkTo ''https://instagram.com/acme'',
                                           linkTo ''https://twitter.com/acme'',
                                           linkTo ''https://youtube.com/acme'',
                                           linkTo ''https://linkedin.com/company/acme''])),
                relMeLinks := Inl ''Target closed''\<rparr>"

definition anchorsPage :: page where
  "anchorsPage = blankPage\<lparr>anchors := Inr [linkTo ''https://instagram.com/acme'']\<rparr>"

text \<open>The result with only instagram resolved.\<close>

definition instagramFound :: jsobject where
  "instagramFound = setProp initResult ''instagram'' ''https://instagram.com/acme''"



text \<open>A local-services browser showing the unusual-traffic page, and a guard view of
  the Facebook scraper with the robot phrase, on which the iframe is never counted.\<close>

definition blockedLocalBrowser :: localBrowser where
  "blockedLocalBrowser =
     \<lparr>lsLaunch = None, lsGoto = (\<lambda>query pageNo. None),
      lsBodyText = Inr (Some ''Our systems have detected unusual traffic from your network''),
      lsRecaptcha = Inr False,
      lsHeights = (\<lambda>k. Inr 0), lsWaits = (\<lambda>k. None),
      lsResults = Inr ([], 0), lsClose = None\<rparr>"

definition robotGuard :: guardView where
  "robotGuard =
     \<lparr>bodyText = Inr (Some ''Please confirm you are not a robot''),
      recaptchaCount = Inl ''Target closed''\<rparr>"

section \<open>Lemmas\<close>

declare retryLoop.simps [simp del] fbRetryLoop.simps [simp del]

lemma map_of_setProp: "map_of (setProp r k v) k' = (if k' = k then Some v else map_of r k')"
  by (simp add: setProp_def update_conv')

lemma keys_setProp: "map fst (setProp r k v) = (if k \<in> set (map fst r) then map fst r else map fst r @ [k])"
  by (simp add: setProp_def update_keys)

lemma grows_refl: "grows r r"
  by (simp add: grows_def)

lemma grows_trans:
  assumes a: "grows r r'" and b: "grows r' r''"
  shows "grows r r''"
  unfolding grows_def
proof (intro conjI allI impI)
  fix k assume k: "\<not> falsyProp r k"
  then have e: "map_of r' k = map_of r k" using a by (simp add: grows_def)
  then have "\<not> falsyProp r' k" using k by (simp add: falsyProp_def)
  then have "map_of r'' k = map_of r' k" using b by (simp add: grows_def)
  then show "map_of r'' k = map_of r k" using e by simp
next
  assume s: "set fieldSet \<subseteq> set (map fst r)"
  then have e: "map fst r' = map fst r" using a by (simp add: grows_def)
  then have "set fieldSet \<subseteq> set (map fst r')" using s by simp
  then have "map fst r'' = map fst r'" using b by (simp add: grows_def)
  then show "map fst r'' = map fst r" using e by simp
next
  assume "allResolved r"
  then show "r'' = r" using a b by (simp add: grows_def)
qed

lemma allResolved_not_falsy: "allResolved r \<Longrightarrow> k \<in> set fieldSet \<Longrightarrow> \<not> falsyProp r k"
  by (auto simp: allResolved_def fieldSet_def list_all_iff)

lemma grows_setProp:
  assumes "falsyProp r k" and "k \<in> set fieldSet"
  shows "grows r (setProp r k v)"
  unfolding grows_def
proof (intro conjI allI impI)
  fix k' assume "\<not> falsyProp r k'"
  with assms have "k' \<noteq> k" by auto
  then show "map_of (setProp r k v) k' = map_of r k'" by (simp add: map_of_setProp)
next
  assume "set fieldSet \<subseteq> set (map fst r)"
  with assms have "k \<in> set (map fst r)" by auto
  then show "map fst (setProp r k v) = map fst r" by (simp add: keys_setProp)
next
  assume "allResolved r"
  with assms show "setProp r k v = r" using allResolved_not_falsy by blast
qed

lemma grows_write:
  "k \<in> set fieldSet \<Longrightarrow> grows r (if falsyProp r k \<and> c then setProp r k v else r)"
  by (simp add: grows_setProp grows_refl)

lemma grows_foldl:
  assumes "\<And>r x. x \<in> set xs \<Longrightarrow> grows r (f r x)"
  shows "grows r (foldl f r xs)"
  using assms
proof (induction xs arbitrary: r)
  case Nil
  show ?case by (simp add: grows_refl)
next
  case (Cons x xs)
  have "grows r (f r x)" using Cons.prems by simp
  moreover have "grows (f r x) (foldl f (f r x) xs)"
    using Cons.IH Cons.prems by simp
  ultimately show ?case using grows_trans by fastforce
qed

lemma platform_in_fieldSet: "platform \<in> set socialPlatforms \<Longrightarrow> platform \<in> set fieldSet"
  by (simp add: fieldSet_def)

lemma contact_in_fieldSet: "''contact'' \<in> set fieldSet"
  by (simp add: fieldSet_def)

lemma twitter_in_fieldSet: "''twitter'' \<in> set fieldSet"
  by (simp add: fieldSet_def socialPlatforms_def)

lemma grows_matchPlatforms: "grows r (matchPlatforms lower v r)"
  unfolding matchPlatforms_def
  by (rule grows_foldl) (simp add: grows_write platform_in_fieldSet)

lemma grows_scanAnchors: "grows r (snd (scanAnchors links r))"
proof (induction links arbitrary: r)
  case Nil
  show ?case by (simp add: grows_refl)
next
  case (Cons link links)
  show ?case
  proof (cases "href link")
    case (Inl e)
    then show ?thesis by (simp add: grows_refl)
  next
    case (Inr ho)
    show ?thesis
    proof (cases ho)
      case None
      with Inr show ?thesis by (simp add: Cons.IH)
    next
      case (Some h)
      let ?r1 = "matchPlatforms (toLowerCase h) h r"
      have g1: "grows r ?r1" by (rule grows_matchPlatforms)
      have g2: "falsyProp ?r1 ''contact'' \<Longrightarrow> grows r (setProp ?r1 ''contact'' h)"
        using g1 grows_setProp [OF _ contact_in_fieldSet] grows_trans by blast
      have step: "\<And>r'. grows r r' \<Longrightarrow> grows r (snd (scanAnchors links r'))"
        using Cons.IH grows_trans by blast
      show ?thesis
        using Inr Some g1 g2 step
        by (auto simp: Let_def Cons.IH split: sum.splits option.splits)
    qed
  qed
qed

lemma grows_extractLinksFrom: "grows r (snd (extractLinksFrom el r))"
  by (cases el) (simp_all add: extractLinksFrom_def grows_refl grows_scanAnchors)

lemma grows_andThen:
  assumes "grows r (snd x)" and "\<And>r'. grows r' (snd (f r'))"
  shows "grows r (snd (andThen x f))"
proof (cases x)
  case (Pair thrown r')
  then show ?thesis
    using assms grows_trans by (cases thrown) (auto simp: andThen_def)
qed

lemma grows_strategy1: "grows r (snd (strategy1 p r))"
proof -
  have a: "\<And>h r. grows r (snd (case h of None \<Rightarrow> (None, r) | Some el \<Rightarrow> extractLinksFrom el r))"
    by (simp add: grows_refl grows_extractLinksFrom split: option.splits)
  show ?thesis
    unfolding strategy1_def
    by (auto simp: grows_refl split: sum.splits intro!: grows_andThen a)
qed

lemma grows_scanSameAs: "grows r (scanSameAs links r)"
proof (induction links r rule: scanSameAs.induct)
  case (2 link links r)
  then show ?case using grows_matchPlatforms grows_trans by (simp, blast)
qed (simp_all add: grows_refl)

lemma grows_strategy2: "grows r (snd (strategy2 p r))"
  unfolding strategy2_def
  by (auto simp: grows_refl scanScript_def grows_scanSameAs split: sum.splits intro!: grows_foldl)

lemma grows_scanRelMe: "grows r (snd (scanRelMe links r))"
proof (induction links arbitrary: r)
  case Nil
  show ?case by (simp add: grows_refl)
next
  case (Cons link links)
  have step: "\<And>r'. grows r r' \<Longrightarrow> grows r (snd (scanRelMe links r'))"
    using Cons.IH grows_trans by blast
  show ?case
    using step grows_matchPlatforms
    by (auto simp: grows_refl Cons.IH split: sum.splits option.splits)
qed

lemma grows_strategy3: "grows r (snd (strategy3 p r))"
  by (simp add: strategy3_def grows_refl grows_scanRelMe split: sum.splits)

lemma grows_metaTwitter: "grows r (snd (metaTwitter p r))"
  by (auto simp: metaTwitter_def grows_refl grows_setProp twitter_in_fieldSet
           split: sum.splits option.splits)

lemma grows_metaSeeAlso: "grows r (snd (metaSeeAlso p r))"
  by (auto simp: metaSeeAlso_def grows_refl grows_matchPlatforms
           split: sum.splits option.splits intro!: grows_foldl)

lemma grows_strategy4: "grows r (snd (strategy4 p r))"
  unfolding strategy4_def
  by (rule grows_andThen) (simp_all add: grows_metaTwitter grows_metaSeeAlso)

lemma grows_strategy5: "grows r (snd (strategy5 p r))"
  by (simp add: strategy5_def grows_refl grows_extractLinksFrom)

lemma grows_strategy6: "grows r (snd (strategy6 p r))"
  unfolding strategy6_def
  by (auto simp: grows_refl grows_setProp platform_in_fieldSet
           split: sum.splits option.splits intro!: grows_foldl)

lemma grows_pass: "grows r (snd (pass p r))"
  unfolding pass_def
  by (intro grows_andThen grows_strategy1 grows_strategy2 grows_strategy3
        grows_strategy4 grows_strategy5 grows_strategy6)

lemma retryLoop_stop:
  "\<not> (int a < N \<and> \<not> hasSocialLinks (result s)) \<Longrightarrow> retryLoop b N a s = s"
  by (subst retryLoop.simps) auto

lemma retryLoop_throw:
  assumes "int a < N" and "\<not> hasSocialLinks (result s)"
    and "pass (pages b a) (result s) = (Some e, r)"
  shows "retryLoop b N a s = retryLoop b N (Suc a) (afterThrow a s e r)"
  using assms by (cases s, subst retryLoop.simps) (simp add: emit_def afterThrow_def)

lemma retryLoop_break:
  assumes "int a < N" and "\<not> hasSocialLinks (result s)"
    and "pass (pages b a) (result s) = (None, r)"
    and "hasSocialLinks r \<or> N \<le> int (Suc a)"
  shows "retryLoop b N a s = afterBreak a s r"
  using assms by (cases s, subst retryLoop.simps) (auto simp: emit_def afterBreak_def)

lemma retryLoop_wait:
  assumes "int a < N" and "\<not> hasSocialLinks (result s)"
    and "pass (pages b a) (result s) = (None, r)"
    and "\<not> hasSocialLinks r" and "int (Suc a) < N"
  shows "retryLoop b N a s = retryLoop b N (Suc a) (afterWait a s r (waits b a))"
  using assms
  by (cases s, subst retryLoop.simps) (auto simp: emit_def afterWait_def split: option.splits)

lemma retryLoop_rule:
  assumes stop: "\<And>a s. \<not> (int a < N \<and> \<not> hasSocialLinks (result s)) \<Longrightarrow> P a s s"
    and throw: "\<And>a s e r f. int a < N \<Longrightarrow> \<not> hasSocialLinks (result s) \<Longrightarrow>
        pass (pages b a) (result s) = (Some e, r) \<Longrightarrow> P (Suc a) (afterThrow a s e r) f \<Longrightarrow> P a s f"
    and break: "\<And>a s r. int a < N \<Longrightarrow> \<not> hasSocialLinks (result s) \<Longrightarrow>
        pass (pages b a) (result s) = (None, r) \<Longrightarrow> hasSocialLinks r \<or> N \<le> int (Suc a) \<Longrightarrow>
        P a s (afterBreak a s r)"
    and wait: "\<And>a s r f. int a < N \<Longrightarrow> \<not> hasSocialLinks (result s) \<Longrightarrow>
        pass (pages b a) (result s) = (None, r) \<Longrightarrow> \<not> hasSocialLinks r \<Longrightarrow> int (Suc a) < N \<Longrightarrow>
        P (Suc a) (afterWait a s r (waits b a)) f \<Longrightarrow> P a s f"
  shows "P a s (retryLoop b N a s)"
proof (induction "nat (N - int a)" arbitrary: a s)
  case 0
  then have "\<not> int a < N" by simp
  then show ?case by (simp add: retryLoop_stop stop)
next
  case (Suc k)
  then have k: "k = nat (N - int (Suc a))" by simp
  show ?case
  proof (cases "int a < N \<and> \<not> hasSocialLinks (result s)")
    case False
    then show ?thesis by (simp add: retryLoop_stop stop)
  next
    case True
    obtain thrown r where pr: "pass (pages b a) (result s) = (thrown, r)"
      by (cases "pass (pages b a) (result s)")
    show ?thesis
    proof (cases thrown)
      case (Some e)
      have "P (Suc a) (afterThrow a s e r) (retryLoop b N (Suc a) (afterThrow a s e r))"
        using Suc.hyps(1) [OF k] .
      then show ?thesis
        using True pr Some by (simp add: retryLoop_throw throw)
    next
      case None
      show ?thesis
      proof (cases "hasSocialLinks r \<or> N \<le> int (Suc a)")
        case True
        then show ?thesis
          using \<open>int a < N \<and> \<not> hasSocialLinks (result s)\<close> pr None
          by (simp add: retryLoop_break break)
      next
        case False
        have "P (Suc a) (afterWait a s r (waits b a))
                (retryLoop b N (Suc a) (afterWait a s r (waits b a)))"
          using Suc.hyps(1) [OF k] .
        then show ?thesis
          using True False pr None retryLoop_wait [of a N s b r] wait [of a s r]
          by simp
      qed
    qed
  qed
qed

lemma passes_append: "passes (xs @ ys) = passes xs + passes ys"
  by (simp add: passes_def)

lemma waitCalls_append: "waitCalls (xs @ ys) = waitCalls xs @ waitCalls ys"
  by (simp add: waitCalls_def)

lemma errorCount_append: "errorCount (xs @ ys) = errorCount xs + errorCount ys"
  by (simp add: errorCount_def)

lemma passes_simps:
  "passes [] = 0" "passes (e # evs) = (if isAttempt e then 1 else 0) + passes evs"
  by (simp_all add: passes_def)

lemma waitCalls_simps:
  "waitCalls [] = []"
  "waitCalls (e # evs) = (case e of WaitForTimeout ms \<Rightarrow> [ms] | _ \<Rightarrow> []) @ waitCalls evs"
  by (simp_all add: waitCalls_def)

lemma errorCount_simps:
  "errorCount [] = 0"
  "errorCount (e # evs) = (if isAttemptError e then 1 else 0) + errorCount evs"
  by (simp_all add: errorCount_def)

lemmas count_simps = passes_append waitCalls_append errorCount_append
  passes_simps waitCalls_simps errorCount_simps

lemma loopInv_stop:
  "\<not> (int a < N \<and> \<not> hasSocialLinks (result s)) \<Longrightarrow> loopInv N a s s"
  unfolding loopInv_def
  by (rule exI [of _ "[]"]) (auto simp: count_simps)

lemma loopInv_throw:
  assumes "int a < N" and "loopInv N (Suc a) (afterThrow a s e r) f"
  shows "loopInv N a s f"
proof -
  from assms(2) [unfolded loopInv_def] obtain ext where H:
    "events f = events (afterThrow a s e r) @ ext
        \<and> passes ext \<le> nat (N - int (Suc a))
        \<and> (\<not> hasSocialLinks (result f) \<longrightarrow> passes ext = nat (N - int (Suc a)))
        \<and> list_all (\<lambda>ms. ms = 1000) (waitCalls ext)
        \<and> (passes ext = 0 \<longrightarrow> f = afterThrow a s e r)
        \<and> (1 \<le> passes ext \<longrightarrow>
             length (waitCalls ext) + 1 \<le> passes ext
             \<and> passes ext \<le> length (waitCalls ext) + errorCount ext + 1)" ..
  have ev: "events f = events (afterThrow a s e r) @ ext" using H by (rule conjunct1)
  note H2 = H [THEN conjunct2]
  have le: "passes ext \<le> nat (N - int (Suc a))" using H2 by (rule conjunct1)
  note H3 = H2 [THEN conjunct2]
  have ex: "\<not> hasSocialLinks (result f) \<longrightarrow> passes ext = nat (N - int (Suc a))"
    using H3 by (rule conjunct1)
  note H4 = H3 [THEN conjunct2]
  have ws: "list_all (\<lambda>ms. ms = 1000) (waitCalls ext)" using H4 by (rule conjunct1)
  note H5 = H4 [THEN conjunct2]
  have z: "passes ext = 0 \<longrightarrow> f = afterThrow a s e r" using H5 by (rule conjunct1)
  have ct: "1 \<le> passes ext \<longrightarrow>
             length (waitCalls ext) + 1 \<le> passes ext
             \<and> passes ext \<le> length (waitCalls ext) + errorCount ext + 1"
    using H5 by (rule conjunct2)
  let ?ext = "[LogAttempt (Suc a), LogAttemptError (Suc a) e] @ ext"
  have nil: "passes ext = 0 \<Longrightarrow> ext = []" using z ev by simp
  have 1: "events f = events s @ ?ext" using ev by (simp add: afterThrow_def)
  have 2: "passes ?ext = Suc (passes ext)" by (simp add: count_simps)
  have 3: "waitCalls ?ext = waitCalls ext" by (simp add: count_simps)
  have 4: "errorCount ?ext = Suc (errorCount ext)" by (simp add: count_simps)
  have 5: "nat (N - int a) = Suc (nat (N - int (Suc a)))" using assms(1) by simp
  have a: "passes ?ext \<le> nat (N - int a)" unfolding 2 5 using le by simp
  have b: "\<not> hasSocialLinks (result f) \<longrightarrow> passes ?ext = nat (N - int a)"
    unfolding 2 5 using ex by simp
  have c: "list_all (\<lambda>ms. ms = 1000) (waitCalls ?ext)" unfolding 3 using ws .
  have d: "passes ?ext = 0 \<longrightarrow> f = s" unfolding 2 by simp
  have e: "1 \<le> passes ?ext \<longrightarrow>
             length (waitCalls ?ext) + 1 \<le> passes ?ext
             \<and> passes ?ext \<le> length (waitCalls ?ext) + errorCount ?ext + 1"
  proof (cases "passes ext")
    case 0
    then show ?thesis using nil by (simp add: count_simps)
  next
    case (Suc n)
    then show ?thesis unfolding 2 3 4 using ct by simp
  qed
  show ?thesis
    unfolding loopInv_def
    using 1 a b c d e by (intro exI [of _ ?ext] conjI)
qed

lemma loopInv_break:
  assumes "int a < N" and "hasSocialLinks r \<or> N \<le> int (Suc a)"
  shows "loopInv N a s (afterBreak a s r)"
proof -
  let ?ext = "[LogAttempt (Suc a), LogFound r]"
  have "nat (N - int a) = 1" if "\<not> hasSocialLinks r"
    using that assms by auto
  then show ?thesis
    unfolding loopInv_def
    using assms(1)
    by (intro exI [of _ ?ext]) (auto simp: count_simps afterBreak_def)
qed

lemma loopInv_wait:
  assumes "int (Suc a) < N" and "\<not> hasSocialLinks r"
    and "loopInv N (Suc a) (afterWait a s r w) f"
  shows "loopInv N a s f"
proof -
  from assms(3) [unfolded loopInv_def] obtain ext where H:
    "events f = events (afterWait a s r w) @ ext
        \<and> passes ext \<le> nat (N - int (Suc a))
        \<and> (\<not> hasSocialLinks (result f) \<longrightarrow> passes ext = nat (N - int (Suc a)))
        \<and> list_all (\<lambda>ms. ms = 1000) (waitCalls ext)
        \<and> (passes ext = 0 \<longrightarrow> f = afterWait a s r w)
        \<and> (1 \<le> passes ext \<longrightarrow>
             length (waitCalls ext) + 1 \<le> passes ext
             \<and> passes ext \<le> length (waitCalls ext) + errorCount ext + 1)" ..
  have ev: "events f = events (afterWait a s r w) @ ext" using H by (rule conjunct1)
  note H2 = H [THEN conjunct2]
  have le: "passes ext \<le> nat (N - int (Suc a))" using H2 by (rule conjunct1)
  note H3 = H2 [THEN conjunct2]
  have ex: "\<not> hasSocialLinks (result f) \<longrightarrow> passes ext = nat (N - int (Suc a))"
    using H3 by (rule conjunct1)
  note H4 = H3 [THEN conjunct2]
  have ws: "list_all (\<lambda>ms. ms = 1000) (waitCalls ext)" using H4 by (rule conjunct1)
  note H5 = H4 [THEN conjunct2]
  have z: "passes ext = 0 \<longrightarrow> f = afterWait a s r w" using H5 by (rule conjunct1)
  have ct: "1 \<le> passes ext \<longrightarrow>
             length (waitCalls ext) + 1 \<le> passes ext
             \<and> passes ext \<le> length (waitCalls ext) + errorCount ext + 1"
    using H5 by (rule conjunct2)
  let ?we = "(case w of Some e \<Rightarrow> [LogAttemptError (Suc a) e] | None \<Rightarrow> [])"
  let ?ext = "[LogAttempt (Suc a), LogFound r, WaitForTimeout 1000] @ ?we @ ext"
  have pos: "1 \<le> passes ext"
  proof (rule ccontr)
    assume "\<not> 1 \<le> passes ext"
    then have p0: "passes ext = 0" by simp
    then have "f = afterWait a s r w" using z by simp
    then have "\<not> hasSocialLinks (result f)" using assms(2) by (simp add: afterWait_def)
    then have "passes ext = nat (N - int (Suc a))" using ex by simp
    then show False using p0 assms(1) by simp
  qed
  have 1: "events f = events s @ ?ext" using ev by (simp add: afterWait_def)
  have 2: "passes ?ext = Suc (passes ext)" by (simp add: count_simps split: option.splits)
  have 3: "waitCalls ?ext = 1000 # waitCalls ext" by (simp add: count_simps split: option.splits)
  have 4: "errorCount ext \<le> errorCount ?ext" by (simp add: count_simps split: option.splits)
  have 5: "nat (N - int a) = Suc (nat (N - int (Suc a)))" using assms(1) by simp
  have a: "passes ?ext \<le> nat (N - int a)" unfolding 2 5 using le by simp
  have b: "\<not> hasSocialLinks (result f) \<longrightarrow> passes ?ext = nat (N - int a)"
    unfolding 2 5 using ex by simp
  have c: "list_all (\<lambda>ms. ms = 1000) (waitCalls ?ext)" unfolding 3 using ws by simp
  have d: "passes ?ext = 0 \<longrightarrow> f = s" unfolding 2 by simp
  have e: "1 \<le> passes ?ext \<longrightarrow>
             length (waitCalls ?ext) + 1 \<le> passes ?ext
             \<and> passes ?ext \<le> length (waitCalls ?ext) + errorCount ?ext + 1"
    unfolding 2 3 using ct pos 4 by simp
  show ?thesis
    unfolding loopInv_def
    using 1 a b c d e by (intro exI [of _ ?ext] conjI)
qed

lemma retryLoop_inv: "loopInv N a s (retryLoop b N a s)"
proof (rule retryLoop_rule [where P = "loopInv N"])
  show "\<And>a s. \<not> (int a < N \<and> \<not> hasSocialLinks (result s)) \<Longrightarrow> loopInv N a s s"
    by (rule loopInv_stop)
  show "\<And>a s e r f. int a < N \<Longrightarrow> loopInv N (Suc a) (afterThrow a s e r) f \<Longrightarrow> loopInv N a s f"
    by (rule loopInv_throw)
  show "\<And>a s r. int a < N \<Longrightarrow> hasSocialLinks r \<or> N \<le> int (Suc a) \<Longrightarrow>
           loopInv N a s (afterBreak a s r)"
    by (rule loopInv_break)
  show "\<And>a s r f. \<not> hasSocialLinks r \<Longrightarrow> int (Suc a) < N \<Longrightarrow>
           loopInv N (Suc a) (afterWait a s r (waits b a)) f \<Longrightarrow> loopInv N a s f"
    by (rule loopInv_wait)
qed

lemma retryLoop_grows: "grows (result s) (result (retryLoop b N a s))"
proof (rule retryLoop_rule [where P = "\<lambda>a s f. grows (result s) (result f)"])
  fix a and s :: run and e r f
  assume pr: "pass (pages b a) (result s) = (Some e, r)"
    and g: "grows (result (afterThrow a s e r)) (result f)"
  have "grows (result s) r" using grows_pass [of "result s" "pages b a"] pr by simp
  moreover have "grows r (result f)" using g by (simp add: afterThrow_def)
  ultimately show "grows (result s) (result f)" by (rule grows_trans)
next
  fix a and s :: run and r
  assume pr: "pass (pages b a) (result s) = (None, r)"
  have "grows (result s) r" using grows_pass [of "result s" "pages b a"] pr by simp
  then show "grows (result s) (result (afterBreak a s r))" by (simp add: afterBreak_def)
next
  fix a and s :: run and r f
  assume pr: "pass (pages b a) (result s) = (None, r)"
    and g: "grows (result (afterWait a s r (waits b a))) (result f)"
  have "grows (result s) r" using grows_pass [of "result s" "pages b a"] pr by simp
  moreover have "grows r (result f)" using g by (simp add: afterWait_def)
  ultimately show "grows (result s) (result f)" by (rule grows_trans)
qed (simp add: grows_refl)


lemma fbRetryLoop_stop: "\<not> int k < N \<Longrightarrow> fbRetryLoop b N k evs = (Inr None, evs)"
  by (subst fbRetryLoop.simps) simp

lemma fbRetryLoop_found:
  "int k < N \<Longrightarrow> fbPass (pages b k) = Inr (Some info) \<Longrightarrow>
   fbRetryLoop b N k evs = (Inr (Some info), evs @ [LogAttempt (Suc k)])"
  by (subst fbRetryLoop.simps) simp

lemma fbRetryLoop_waitfail:
  "int k < N \<Longrightarrow> \<forall>info. fbPass (pages b k) \<noteq> Inr (Some info) \<Longrightarrow> waits b k = Some e \<Longrightarrow>
   fbRetryLoop b N k evs = (Inl e, evs @ fbAttemptEvents k (fbPass (pages b k)))"
  by (subst fbRetryLoop.simps)
     (simp add: fbAttemptEvents_def Let_def split: sum.splits option.splits)

lemma fbRetryLoop_continue:
  "int k < N \<Longrightarrow> \<forall>info. fbPass (pages b k) \<noteq> Inr (Some info) \<Longrightarrow> waits b k = None \<Longrightarrow>
   fbRetryLoop b N k evs = fbRetryLoop b N (Suc k) (evs @ fbAttemptEvents k (fbPass (pages b k)))"
  by (subst fbRetryLoop.simps)
     (simp add: fbAttemptEvents_def Let_def split: sum.splits option.splits)

lemma fbAttemptEvents_counts:
  "passes (fbAttemptEvents k attempt) = 1"
  "waitCalls (fbAttemptEvents k attempt) = [1000]"
  by (simp_all add: fbAttemptEvents_def count_simps split: sum.splits)

lemma fbRetryLoop_inv: "fbInv N k evs (fbRetryLoop b N k evs)"
proof (induction "nat (N - int k)" arbitrary: k evs)
  case 0
  then have "\<not> int k < N" by simp
  then show ?case
    by (simp add: fbRetryLoop_stop fbInv_def count_simps)
next
  case (Suc n)
  then have lt: "int k < N" and n: "n = nat (N - int (Suc k))" by simp_all
  have m: "nat (N - int k) = Suc (nat (N - int (Suc k)))" using lt by simp
  show ?case
  proof (cases "\<exists>info. fbPass (pages b k) = Inr (Some info)")
    case True
    then obtain info where "fbPass (pages b k) = Inr (Some info)" ..
    then have "fbRetryLoop b N k evs = (Inr (Some info), evs @ [LogAttempt (Suc k)])"
      using lt by (rule fbRetryLoop_found [rotated])
    then show ?thesis
      unfolding fbInv_def using lt
      by (intro exI [of _ "[LogAttempt (Suc k)]"]) (simp add: count_simps)
  next
    case False
    then have nf: "\<forall>info. fbPass (pages b k) \<noteq> Inr (Some info)" by simp
    let ?ev = "fbAttemptEvents k (fbPass (pages b k))"
    show ?thesis
    proof (cases "waits b k")
      case (Some e)
      then have "fbRetryLoop b N k evs = (Inl e, evs @ ?ev)"
        using lt nf by (simp add: fbRetryLoop_waitfail)
      then show ?thesis
        unfolding fbInv_def using lt
        by (intro exI [of _ ?ev]) (simp add: fbAttemptEvents_counts)
    next
      case None
      then have eq: "fbRetryLoop b N k evs = fbRetryLoop b N (Suc k) (evs @ ?ev)"
        using lt nf by (simp add: fbRetryLoop_continue)
      from Suc.hyps(1) [OF n, of "evs @ ?ev", unfolded fbInv_def]
      obtain ext where H: "snd (fbRetryLoop b N (Suc k) (evs @ ?ev)) = (evs @ ?ev) @ ext
        \<and> passes ext \<le> nat (N - int (Suc k))
        \<and> list_all (\<lambda>ms. ms = 1000) (waitCalls ext)
        \<and> (fst (fbRetryLoop b N (Suc k) (evs @ ?ev)) = Inr None \<longrightarrow>
              passes ext = nat (N - int (Suc k)) \<and> length (waitCalls ext) = passes ext)" ..
      show ?thesis
        unfolding fbInv_def eq m
        using H
        by (intro exI [of _ "?ev @ ext"])
           (simp add: count_simps fbAttemptEvents_counts)
    qed
  qed
qed

lemma matchPlatforms_quiet: "\<not> mentionsPlatform s \<Longrightarrow> matchPlatforms (toLowerCase s) v r = r"
proof -
  assume q: "\<not> mentionsPlatform s"
  have "foldl (\<lambda>r platform.
              if falsyProp r platform \<and> str_includes (toLowerCase s) (platform @ ''.com'')
              then setProp r platform v else r) r ps = r"
    if "\<forall>p \<in> set ps. \<not> str_includes (toLowerCase s) (p @ ''.com'')" for ps
    using that by (induction ps arbitrary: r) simp_all
  then show ?thesis
    using q by (simp add: matchPlatforms_def mentionsPlatform_def list_ex_iff)
qed

lemma initResult_eq:
  "initResult = [(''contact'', []), (''facebook'', []), (''instagram'', []),
                 (''twitter'', []), (''youtube'', []), (''linkedin'', [])]"
  by (simp add: initResult_def socialPlatforms_def setProp_def)

lemma initResult_contact: "falsyProp initResult ''contact''"
  by (simp add: initResult_eq falsyProp_def)

lemma initResult_twitter: "setProp initResult ''twitter'' [] = initResult"
  by (simp add: initResult_eq setProp_def)

lemma not_has_initResult: "\<not> hasSocialLinks initResult"
  by (simp add: initResult_eq hasSocialLinks_def)

lemma scanAnchors_quiet:
  "list_all quietAnchor links \<Longrightarrow> scanAnchors links initResult = (None, initResult)"
proof (induction links)
  case Nil
  show ?case by simp
next
  case (Cons link links)
  then have q: "quietAnchor link" and ih: "scanAnchors links initResult = (None, initResult)"
    by simp_all
  show ?case
    using q ih initResult_contact
    by (auto simp: quietAnchor_def matchPlatforms_quiet Let_def
             split: sum.splits option.splits)
qed

lemma extractLinksFrom_quiet:
  "quietAnchors el \<Longrightarrow> extractLinksFrom el initResult = (None, initResult)"
  by (auto simp: quietAnchors_def extractLinksFrom_def scanAnchors_quiet split: sum.splits)

lemma strategy1_quiet:
  "quietRegion (header p) \<Longrightarrow> quietRegion (footer p) \<Longrightarrow>
   strategy1 p initResult = (None, initResult)"
  by (auto simp: quietRegion_def strategy1_def andThen_def extractLinksFrom_quiet
           split: sum.splits option.splits)

lemma scanSameAs_quiet: "list_all quietJson links \<Longrightarrow> scanSameAs links r = r"
  by (induction links r rule: scanSameAs.induct)
     (simp_all add: quietJson_def matchPlatforms_quiet)

lemma strategy2_quiet:
  "quietScripts (jsonLdScripts p) \<Longrightarrow> strategy2 p r = (None, r)"
proof -
  have "foldl scanScript r scripts = r"
    if "list_all (\<lambda>script. list_all quietJson (sameAsLinks script)) scripts" for scripts
    using that by (induction scripts) (simp_all add: scanScript_def scanSameAs_quiet)
  then show "quietScripts (jsonLdScripts p) \<Longrightarrow> strategy2 p r = (None, r)"
    by (auto simp: quietScripts_def strategy2_def split: sum.splits)
qed

lemma scanRelMe_quiet:
  "list_all (\<lambda>link. case link of Inl e \<Rightarrow> False | Inr None \<Rightarrow> True
                           | Inr (Some h) \<Rightarrow> \<not> mentionsPlatform h) links \<Longrightarrow>
   scanRelMe links r = (None, r)"
  by (induction links) (auto simp: matchPlatforms_quiet split: sum.splits option.splits)

lemma strategy3_quiet: "quietRelMe (relMeLinks p) \<Longrightarrow> strategy3 p r = (None, r)"
  by (auto simp: quietRelMe_def strategy3_def scanRelMe_quiet split: sum.splits)

lemma metaTwitter_quiet:
  "quietTwitterSite (twitterSite p) \<Longrightarrow> metaTwitter p initResult = (None, initResult)"
  by (auto simp: quietTwitterSite_def metaTwitter_def initResult_twitter
           split: sum.splits option.splits)

lemma metaSeeAlso_quiet: "quietSeeAlso (ogSeeAlso p) \<Longrightarrow> metaSeeAlso p r = (None, r)"
proof -
  have "foldl (\<lambda>r link. matchPlatforms (toLowerCase link) (trim link) r) r links = r"
    if "list_all (\<lambda>link. \<not> mentionsPlatform link) links" for links
    using that by (induction links) (simp_all add: matchPlatforms_quiet)
  then show "quietSeeAlso (ogSeeAlso p) \<Longrightarrow> metaSeeAlso p r = (None, r)"
    by (auto simp: quietSeeAlso_def metaSeeAlso_def split: sum.splits option.splits)
qed

lemma strategy4_quiet:
  "quietTwitterSite (twitterSite p) \<Longrightarrow> quietSeeAlso (ogSeeAlso p) \<Longrightarrow>
   strategy4 p initResult = (None, initResult)"
  by (simp add: strategy4_def metaTwitter_quiet metaSeeAlso_quiet andThen_def)

lemma strategy5_quiet:
  "quietAnchors (anchors p) \<Longrightarrow> strategy5 p initResult = (None, initResult)"
  by (simp add: strategy5_def extractLinksFrom_quiet)

lemma firstFive_quiet: "quietElements p \<Longrightarrow> firstFive p initResult = (None, initResult)"
  by (simp add: quietElements_def firstFive_def strategy1_quiet strategy2_quiet
        strategy3_quiet strategy4_quiet strategy5_quiet andThen_def)

lemma pass_firstFive: "pass p r = andThen (firstFive p r) (strategy6 p)"
  by (simp add: pass_def firstFive_def)

lemma strategy6_quiet: "quietMarkup p \<Longrightarrow> strategy6 p initResult = (None, initResult)"
proof -
  have "foldl (\<lambda>r platform.
                 if falsyProp r platform then
                   (case regexExec platform html of Some m \<Rightarrow> setProp r platform m | None \<Rightarrow> r)
                 else r) r ps = r"
    if "list_all (\<lambda>platform. regexExec platform html = None) ps" for ps html r
    using that by (induction ps) simp_all
  then show "quietMarkup p \<Longrightarrow> strategy6 p initResult = (None, initResult)"
    by (auto simp: quietMarkup_def strategy6_def split: sum.splits)
qed

lemma pass_noSignals: "noSignals p \<Longrightarrow> pass p initResult = (None, initResult)"
  by (simp add: noSignals_def pass_firstFive firstFive_quiet strategy6_quiet andThen_def)

lemma extract_started:
  "socialStarts b u opts \<Longrightarrow>
   extractSocialLinks b u opts =
     (finallyClose b (Returned (result (socialLoop b u opts))), events (socialLoop b u opts))"
  by (simp add: socialStarts_def extractSocialLinks_def socialLoop_def Let_def)

lemma keys_initResult: "map fst initResult = fieldSet"
  by (simp add: initResult_eq fieldSet_def socialPlatforms_def)

lemma retryLoop_keys:
  "map fst (result s) = fieldSet \<Longrightarrow> map fst (result (retryLoop b N a s)) = fieldSet"
  using retryLoop_grows [of s b N a] by (simp add: grows_def)

lemma socialLoop_keys: "map fst (result (socialLoop b u opts)) = fieldSet"
  unfolding socialLoop_def by (rule retryLoop_keys) (simp add: keys_initResult)

lemma error_not_field: "''error'' \<notin> set fieldSet"
  by (simp add: fieldSet_def socialPlatforms_def)

lemma socialLoop_inv:
  "loopInv (cfgMaxRetries (mkConfig 30 opts)) 0
     \<lparr>result = initResult, events = [LogStart (normalizeUrl ''http://'' u)]\<rparr> (socialLoop b u opts)"
  unfolding socialLoop_def by (rule retryLoop_inv)

lemma socialLoop_events:
  "\<exists>ext. events (socialLoop b u opts) = LogStart (normalizeUrl ''http://'' u) # ext
      \<and> passes (events (socialLoop b u opts)) = passes ext
      \<and> waitCalls (events (socialLoop b u opts)) = waitCalls ext
      \<and> errorCount (events (socialLoop b u opts)) = errorCount ext
      \<and> passes ext \<le> nat (cfgMaxRetries (mkConfig 30 opts))
      \<and> (\<not> hasSocialLinks (result (socialLoop b u opts)) \<longrightarrow>
            passes ext = nat (cfgMaxRetries (mkConfig 30 opts)))
      \<and> list_all (\<lambda>ms. ms = 1000) (waitCalls ext)
      \<and> (1 \<le> passes ext \<longrightarrow>
             length (waitCalls ext) + 1 \<le> passes ext
             \<and> passes ext \<le> length (waitCalls ext) + errorCount ext + 1)"
proof -
  from socialLoop_inv [of opts u b, unfolded loopInv_def]
  obtain ext where H:
    "events (socialLoop b u opts)
       = events \<lparr>result = initResult, events = [LogStart (normalizeUrl ''http://'' u)]\<rparr> @ ext
        \<and> passes ext \<le> nat (cfgMaxRetries (mkConfig 30 opts) - int 0)
        \<and> (\<not> hasSocialLinks (result (socialLoop b u opts)) \<longrightarrow>
              passes ext = nat (cfgMaxRetries (mkConfig 30 opts) - int 0))
        \<and> list_all (\<lambda>ms. ms = 1000) (waitCalls ext)
        \<and> (passes ext = 0 \<longrightarrow> socialLoop b u opts
              = \<lparr>result = initResult, events = [LogStart (normalizeUrl ''http://'' u)]\<rparr>)
        \<and> (1 \<le> passes ext \<longrightarrow>
             length (waitCalls ext) + 1 \<le> passes ext
             \<and> passes ext \<le> length (waitCalls ext) + errorCount ext + 1)" ..
  have e: "events (socialLoop b u opts) = LogStart (normalizeUrl ''http://'' u) # ext"
    using H by simp
  show ?thesis
    apply (rule exI [of _ ext])
    unfolding e
    using H by (simp add: count_simps)
qed

lemma social_passes_events:
  "passes (snd (extractSocialLinks b u opts))
     = (if socialStarts b u opts then passes (events (socialLoop b u opts)) else 0)"
  by (auto simp: extract_started)
     (auto simp: socialStarts_def extractSocialLinks_def Let_def emit_def count_simps
           split: option.splits)




lemma scrape_started:
  "fbStarts b g u opts \<Longrightarrow>
   scrapeFacebookProfile b g u opts =
     (case fbLoop b u opts of
        (Inl e, evs) \<Rightarrow>
          (finallyClose b (Returned (errorRecord e (normalizeFacebookUrl u))), evs @ [LogFatal e])
      | (Inr None, evs) \<Rightarrow> (finallyClose b (Returned emptyProfile), evs)
      | (Inr (Some profileInfo), evs) \<Rightarrow> (finallyClose b (Returned profileInfo), evs))"
  by (simp add: fbStarts_def scrapeFacebookProfile_def fbLoop_def Let_def)

lemma scrape_not_started:
  "\<not> fbStarts b g u opts \<Longrightarrow> passes (snd (scrapeFacebookProfile b g u opts)) = 0
     \<and> waitCalls (snd (scrapeFacebookProfile b g u opts)) = []"
  by (auto simp: fbStarts_def scrapeFacebookProfile_def Let_def count_simps
           split: option.splits sum.splits bool.splits)

lemma fbLoop_events:
  "\<exists>ext. snd (fbLoop b u opts) = LogStart (normalizeFacebookUrl u) # ext
      \<and> passes ext \<le> nat (cfgMaxRetries (mkConfig 20 opts))
      \<and> list_all (\<lambda>ms. ms = 1000) (waitCalls ext)
      \<and> (fst (fbLoop b u opts) = Inr None \<longrightarrow>
            passes ext = nat (cfgMaxRetries (mkConfig 20 opts))
            \<and> length (waitCalls ext) = passes ext)"
proof -
  from fbRetryLoop_inv [of "cfgMaxRetries (mkConfig 20 opts)" 0
         "[LogStart (normalizeFacebookUrl u)]" b, unfolded fbInv_def, folded fbLoop_def]
  obtain ext where H:
    "snd (fbLoop b u opts) = [LogStart (normalizeFacebookUrl u)] @ ext
        \<and> passes ext \<le> nat (cfgMaxRetries (mkConfig 20 opts) - int 0)
        \<and> list_all (\<lambda>ms. ms = 1000) (waitCalls ext)
        \<and> (fst (fbLoop b u opts) = Inr None \<longrightarrow>
              passes ext = nat (cfgMaxRetries (mkConfig 20 opts) - int 0)
              \<and> length (waitCalls ext) = passes ext)" ..
  then show ?thesis by (intro exI [of _ ext]) simp
qed

lemma scrape_events:
  "fbStarts b g u opts \<Longrightarrow>
     passes (snd (scrapeFacebookProfile b g u opts)) = passes (snd (fbLoop b u opts))
     \<and> waitCalls (snd (scrapeFacebookProfile b g u opts)) = waitCalls (snd (fbLoop b u opts))"
  by (cases "fbLoop b u opts")
     (auto simp: scrape_started count_simps split: sum.splits option.splits)


lemma fb_first_pass:
  assumes "fbStarts b g u opts" and "0 < cfgMaxRetries (mkConfig 20 opts)"
    and "fbPass (pages b 0) = Inr (Some info)"
  shows "scrapeFacebookProfile b g u opts
           = (finallyClose b (Returned info),
              [LogStart (normalizeFacebookUrl u), LogAttempt 1])"
proof -
  have "fbLoop b u opts = (Inr (Some info), [LogStart (normalizeFacebookUrl u), LogAttempt 1])"
    unfolding fbLoop_def using assms(2,3) by (simp add: fbRetryLoop_found)
  then show ?thesis using assms(1) by (simp add: scrape_started)
qed

lemma fbRetryLoop_exhausts:
  assumes "\<forall>k. int k < N \<longrightarrow> (\<forall>info. fbPass (pages b k) \<noteq> Inr (Some info)) \<and> waits b k = None"
  shows "fst (fbRetryLoop b N a evs) = Inr None"
proof (induction "nat (N - int a)" arbitrary: a evs)
  case 0
  then have "\<not> int a < N" by simp
  then show ?case by (simp add: fbRetryLoop_stop)
next
  case (Suc n)
  then have lt: "int a < N" and n: "n = nat (N - int (Suc a))" by simp_all
  have "fbRetryLoop b N a evs
          = fbRetryLoop b N (Suc a) (evs @ fbAttemptEvents a (fbPass (pages b a)))"
    using lt assms by (simp add: fbRetryLoop_continue)
  then show ?case using Suc.hyps(1) [OF n] by simp
qed




lemma social_waitCalls_events:
  "waitCalls (snd (extractSocialLinks b u opts))
     = (if socialStarts b u opts then waitCalls (events (socialLoop b u opts)) else [])"
  by (auto simp: extract_started)
     (auto simp: socialStarts_def extractSocialLinks_def Let_def emit_def count_simps
           split: option.splits)

lemma social_no_attempts:
  assumes "cfgMaxRetries (mkConfig 30 opts) \<le> 0"
  shows "socialLoop b u opts
           = \<lparr>result = initResult, events = [LogStart (normalizeUrl ''http://'' u)]\<rparr>"
  unfolding socialLoop_def using assms by (simp add: retryLoop_stop)

lemma social_one_attempt:
  assumes "socialStarts b u opts" and "cfgMaxRetries (mkConfig 30 opts) = 1"
  shows "passes (snd (extractSocialLinks b u opts)) = 1"
    and "waitCalls (snd (extractSocialLinks b u opts)) = []"
proof -
  obtain ext where e: "events (socialLoop b u opts) = LogStart (normalizeUrl ''http://'' u) # ext"
    and le: "passes ext \<le> nat (cfgMaxRetries (mkConfig 30 opts))"
    and ex: "\<not> hasSocialLinks (result (socialLoop b u opts)) \<longrightarrow>
            passes ext = nat (cfgMaxRetries (mkConfig 30 opts))"
    and ct: "1 \<le> passes ext \<longrightarrow> length (waitCalls ext) + 1 \<le> passes ext"
    using socialLoop_events [of b u opts] by blast
  have one: "passes ext = 1"
  proof (cases "hasSocialLinks (result (socialLoop b u opts))")
    case False
    then show ?thesis using ex assms(2) by simp
  next
    case True
    have "passes ext \<noteq> 0"
    proof
      assume "passes ext = 0"
      then have "socialLoop b u opts
           = \<lparr>result = initResult, events = [LogStart (normalizeUrl ''http://'' u)]\<rparr>"
        using socialLoop_inv [of opts u b] e
        by (auto simp: loopInv_def)
      then show False using True not_has_initResult by simp
    qed
    then show ?thesis using le assms(2) by simp
  qed
  then show "passes (snd (extractSocialLinks b u opts)) = 1"
    using assms(1) e by (simp add: social_passes_events count_simps)
  show "waitCalls (snd (extractSocialLinks b u opts)) = []"
    using assms(1) e one ct by (simp add: social_waitCalls_events count_simps)
qed

lemma fb_no_attempts:
  assumes "cfgMaxRetries (mkConfig 20 opts) \<le> 0"
  shows "fbLoop b u opts = (Inr None, [LogStart (normalizeFacebookUrl u)])"
  unfolding fbLoop_def using assms by (simp add: fbRetryLoop_stop)

lemma fb_one_attempt:
  assumes "fbStarts b g u opts" and "cfgMaxRetries (mkConfig 20 opts) = 1"
  shows "passes (snd (scrapeFacebookProfile b g u opts)) = 1"
proof -
  let ?ev = "[LogStart (normalizeFacebookUrl u)]"
  have "passes (snd (fbRetryLoop b 1 0 ?ev)) = 1"
  proof (cases "\<exists>info. fbPass (pages b 0) = Inr (Some info)")
    case True
    then obtain info where "fbPass (pages b 0) = Inr (Some info)" ..
    then show ?thesis by (simp add: fbRetryLoop_found count_simps)
  next
    case False
    then have nf: "\<forall>info. fbPass (pages b 0) \<noteq> Inr (Some info)" by simp
    show ?thesis
    proof (cases "waits b 0")
      case None
      then show ?thesis
        using nf by (simp add: fbRetryLoop_continue fbRetryLoop_stop count_simps
                         fbAttemptEvents_counts)
    next
      case (Some e)
      then show ?thesis
        using nf by (simp add: fbRetryLoop_waitfail count_simps fbAttemptEvents_counts)
    qed
  qed
  then show ?thesis using assms by (simp add: scrape_events fbLoop_def)
qed

lemma social_errorCount_events:
  "errorCount (snd (extractSocialLinks b u opts))
     = (if socialStarts b u opts then errorCount (events (socialLoop b u opts)) else 0)"
  by (auto simp: extract_started)
     (auto simp: socialStarts_def extractSocialLinks_def Let_def emit_def count_simps
           split: option.splits)

lemma social_waits:
  shows social_wait_ms: "list_all (\<lambda>ms. ms = 1000) (waitCalls (snd (extractSocialLinks b u opts)))"
  and social_wait_count: "1 \<le> passes (snd (extractSocialLinks b u opts)) \<longrightarrow>
         length (waitCalls (snd (extractSocialLinks b u opts))) + 1
           \<le> passes (snd (extractSocialLinks b u opts))
         \<and> passes (snd (extractSocialLinks b u opts))
           \<le> length (waitCalls (snd (extractSocialLinks b u opts)))
              + errorCount (snd (extractSocialLinks b u opts)) + 1"
proof -
  obtain ext where e: "events (socialLoop b u opts) = LogStart (normalizeUrl ''http://'' u) # ext"
    and p: "passes (events (socialLoop b u opts)) = passes ext"
    and w: "waitCalls (events (socialLoop b u opts)) = waitCalls ext"
    and r: "errorCount (events (socialLoop b u opts)) = errorCount ext"
    and ws: "list_all (\<lambda>ms. ms = 1000) (waitCalls ext)"
    and ct: "1 \<le> passes ext \<longrightarrow>
             length (waitCalls ext) + 1 \<le> passes ext
             \<and> passes ext \<le> length (waitCalls ext) + errorCount ext + 1"
    using socialLoop_events [of b u opts] by blast
  show "list_all (\<lambda>ms. ms = 1000) (waitCalls (snd (extractSocialLinks b u opts)))"
    using ws w by (simp add: social_waitCalls_events)
  show "1 \<le> passes (snd (extractSocialLinks b u opts)) \<longrightarrow>
         length (waitCalls (snd (extractSocialLinks b u opts))) + 1
           \<le> passes (snd (extractSocialLinks b u opts))
         \<and> passes (snd (extractSocialLinks b u opts))
           \<le> length (waitCalls (snd (extractSocialLinks b u opts)))
              + errorCount (snd (extractSocialLinks b u opts)) + 1"
    using ct p w r
    by (simp add: social_waitCalls_events social_passes_events social_errorCount_events)
qed

lemma mkConfig_others:
  "cfgHeadless (mkConfig d (opts\<lparr>others := x\<rparr>)) = cfgHeadless (mkConfig d opts)"
  "cfgTimeout (mkConfig d (opts\<lparr>others := x\<rparr>)) = cfgTimeout (mkConfig d opts)"
  "cfgMaxRetries (mkConfig d (opts\<lparr>others := x\<rparr>)) = cfgMaxRetries (mkConfig d opts)"
  by (simp_all add: mkConfig_def)

lemma social_ignores_others:
  "extractSocialLinks b u (opts\<lparr>others := x\<rparr>) = extractSocialLinks b u opts"
  unfolding extractSocialLinks_def Let_def mkConfig_others by (rule refl)

lemma fb_ignores_others:
  "scrapeFacebookProfile b g u (opts\<lparr>others := x\<rparr>) = scrapeFacebookProfile b g u opts"
  unfolding scrapeFacebookProfile_def Let_def mkConfig_others by (rule refl)

lemma fb_waits:
  "list_all (\<lambda>ms. ms = 1000) (waitCalls (snd (scrapeFacebookProfile b g u opts)))"
proof (cases "fbStarts b g u opts")
  case True
  then show ?thesis
    using fbLoop_events [of b u opts] by (auto simp: scrape_events count_simps)
next
  case False
  then show ?thesis by (simp add: scrape_not_started)
qed








lemma pass_firstFour:
  "pass p r = andThen (andThen (firstFour p r) (strategy5 p)) (strategy6 p)"
  by (simp add: pass_def firstFour_def)

lemma early_strategies_ignore_late_sources:
  "strategy1 (p\<lparr>anchors := a, content := c\<rparr>) = strategy1 p"
  "strategy2 (p\<lparr>anchors := a, content := c\<rparr>) = strategy2 p"
  "strategy3 (p\<lparr>anchors := a, content := c\<rparr>) = strategy3 p"
  "metaTwitter (p\<lparr>anchors := a, content := c\<rparr>) = metaTwitter p"
  "metaSeeAlso (p\<lparr>anchors := a, content := c\<rparr>) = metaSeeAlso p"
  by (rule ext,
      simp add: strategy1_def strategy2_def strategy3_def metaTwitter_def metaSeeAlso_def
           cong: sum.case_cong option.case_cong)+

lemma strategy4_ignores_late_sources:
  "strategy4 (p\<lparr>anchors := a, content := c\<rparr>) = strategy4 p"
  by (rule ext) (simp add: strategy4_def early_strategies_ignore_late_sources)

lemma firstFour_ignores_late_sources:
  "firstFour (p\<lparr>anchors := a, content := c\<rparr>) r = firstFour p r"
  by (simp add: firstFour_def early_strategies_ignore_late_sources
        strategy4_ignores_late_sources)

lemma pass_found_by_four:
  assumes "firstFour p r = (None, r4)" and "hasSocialLinks r4"
  shows "pass p r = (None, r4)"
  using assms by (simp add: pass_firstFour andThen_def strategy5_def strategy6_def)

lemma pass_found_by_five:
  assumes "firstFour p r = (None, r4)" and "\<not> hasSocialLinks r4"
    and "extractLinksFrom (anchors p) r4 = (None, r5)" and "hasSocialLinks r5"
  shows "pass p r = (None, r5)"
  using assms by (simp add: pass_firstFour andThen_def strategy5_def strategy6_def)

lemma pass_strategy2_thrown:
  assumes "strategy1 p r = (None, r1)" and "jsonLdScripts p = Inl e"
  shows "pass p r = (Some e, r1)"
  using assms by (simp add: pass_def andThen_def strategy2_def)

lemma pass_strategy3_thrown:
  assumes "strategy1 p r = (None, r1)" and "strategy2 p r1 = (None, r2)"
    and "relMeLinks p = Inl e"
  shows "pass p r = (Some e, r2)"
  using assms by (simp add: pass_def andThen_def strategy3_def)

lemma pass_strategy4_thrown:
  assumes "strategy1 p r = (None, r1)" and "strategy2 p r1 = (None, r2)"
    and "strategy3 p r2 = (None, r3)" and "twitterSite p = Inl e"
  shows "pass p r = (Some e, r3)"
  using assms by (simp add: pass_def andThen_def strategy4_def metaTwitter_def)







lemma socialRounds_head:
  "socialRounds evs \<Longrightarrow> evs \<noteq> [] \<Longrightarrow> \<exists>k rest. evs = LogAttempt k # rest"
  by (cases evs rule: socialRounds.cases) simp_all

lemma retryLoop_rounds:
  "\<exists>ext. events (retryLoop b N a s) = events s @ ext \<and> socialRounds ext
         \<and> (int a < N \<and> \<not> hasSocialLinks (result s) \<longrightarrow> ext \<noteq> [])"
proof (rule retryLoop_rule [where P = "\<lambda>a s f. \<exists>ext. events f = events s @ ext \<and> socialRounds ext
         \<and> (int a < N \<and> \<not> hasSocialLinks (result s) \<longrightarrow> ext \<noteq> [])"])
  fix a and s :: run
  assume "\<not> (int a < N \<and> \<not> hasSocialLinks (result s))"
  then show "\<exists>ext. events s = events s @ ext \<and> socialRounds ext
         \<and> (int a < N \<and> \<not> hasSocialLinks (result s) \<longrightarrow> ext \<noteq> [])"
    by (intro exI [of _ "[]"]) simp
next
  fix a and s :: run and e r f
  assume "\<exists>ext. events f = events (afterThrow a s e r) @ ext \<and> socialRounds ext
         \<and> (int (Suc a) < N \<and> \<not> hasSocialLinks (result (afterThrow a s e r)) \<longrightarrow> ext \<noteq> [])"
  then obtain ext where ev: "events f = events (afterThrow a s e r) @ ext"
    and sr: "socialRounds ext" by blast
  show "\<exists>ext. events f = events s @ ext \<and> socialRounds ext
         \<and> (int a < N \<and> \<not> hasSocialLinks (result s) \<longrightarrow> ext \<noteq> [])"
    using ev sr
    by (intro exI [of _ "LogAttempt (Suc a) # LogAttemptError (Suc a) e # ext"])
       (simp add: afterThrow_def)
next
  fix a and s :: run and r
  show "\<exists>ext. events (afterBreak a s r) = events s @ ext \<and> socialRounds ext
         \<and> (int a < N \<and> \<not> hasSocialLinks (result s) \<longrightarrow> ext \<noteq> [])"
    by (intro exI [of _ "[LogAttempt (Suc a), LogFound r]"]) (simp add: afterBreak_def)
next
  fix a and s :: run and r f
  assume nh: "\<not> hasSocialLinks r" and lt: "int (Suc a) < N"
    and "\<exists>ext. events f = events (afterWait a s r (waits b a)) @ ext \<and> socialRounds ext
         \<and> (int (Suc a) < N \<and> \<not> hasSocialLinks (result (afterWait a s r (waits b a)))
              \<longrightarrow> ext \<noteq> [])"
  then obtain ext where ev: "events f = events (afterWait a s r (waits b a)) @ ext"
    and sr: "socialRounds ext"
    and ne: "int (Suc a) < N \<and> \<not> hasSocialLinks (result (afterWait a s r (waits b a)))
              \<longrightarrow> ext \<noteq> []"
    by blast
  have "ext \<noteq> []" using ne nh lt by (simp add: afterWait_def)
  then obtain k rest where hd: "ext = LogAttempt k # rest"
    using sr socialRounds_head by blast
  let ?we = "(case waits b a of Some e \<Rightarrow> [LogAttemptError (Suc a) e] | None \<Rightarrow> [])"
  let ?ext = "LogAttempt (Suc a) # LogFound r # WaitForTimeout 1000 # ?we @ ext"
  have 1: "events f = events s @ ?ext" using ev by (simp add: afterWait_def)
  have 2: "socialRounds ?ext"
    using sr unfolding hd by (cases "waits b a") simp_all
  show "\<exists>ext. events f = events s @ ext \<and> socialRounds ext
         \<and> (int a < N \<and> \<not> hasSocialLinks (result s) \<longrightarrow> ext \<noteq> [])"
    using 1 2 by (intro exI [of _ ?ext]) simp
qed

lemma social_rounds:
  assumes "socialStarts b u opts"
  shows "\<exists>ext. snd (extractSocialLinks b u opts) = LogStart (normalizeUrl ''http://'' u) # ext
               \<and> socialRounds ext"
proof -
  from retryLoop_rounds [of b "cfgMaxRetries (mkConfig 30 opts)" 0
         "\<lparr>result = initResult, events = [LogStart (normalizeUrl ''http://'' u)]\<rparr>"]
  obtain ext where
    "events (socialLoop b u opts) = [LogStart (normalizeUrl ''http://'' u)] @ ext"
    and "socialRounds ext"
    by (auto simp: socialLoop_def)
  then show ?thesis using assms by (intro exI [of _ ext]) (simp add: extract_started)
qed

lemma fbRounds_attempt: "fbRounds xs \<Longrightarrow> fbRounds (fbAttemptEvents k attempt @ xs)"
  by (cases attempt) (simp_all add: fbAttemptEvents_def)

lemma fbRounds_attempt_fatal: "fbRounds (fbAttemptEvents k attempt @ [LogFatal e])"
  by (cases attempt) (simp_all add: fbAttemptEvents_def)

lemma fbRetryLoop_rounds:
  "\<exists>ext. snd (fbRetryLoop b N k evs) = evs @ ext
         \<and> fbRounds (ext @ (case fst (fbRetryLoop b N k evs) of
                               Inl e \<Rightarrow> [LogFatal e] | Inr v \<Rightarrow> []))
         \<and> (case fst (fbRetryLoop b N k evs) of Inl e \<Rightarrow> ext \<noteq> [] | Inr v \<Rightarrow> True)"
proof (induction "nat (N - int k)" arbitrary: k evs)
  case 0
  then have "\<not> int k < N" by simp
  then show ?case by (intro exI [of _ "[]"]) (simp add: fbRetryLoop_stop)
next
  case (Suc n)
  then have lt: "int k < N" and n: "n = nat (N - int (Suc k))" by simp_all
  show ?case
  proof (cases "\<exists>info. fbPass (pages b k) = Inr (Some info)")
    case True
    then obtain info where "fbPass (pages b k) = Inr (Some info)" ..
    then have "fbRetryLoop b N k evs = (Inr (Some info), evs @ [LogAttempt (Suc k)])"
      using lt by (rule fbRetryLoop_found [rotated])
    then show ?thesis by (intro exI [of _ "[LogAttempt (Suc k)]"]) simp
  next
    case False
    then have nf: "\<forall>info. fbPass (pages b k) \<noteq> Inr (Some info)" by simp
    let ?ev = "fbAttemptEvents k (fbPass (pages b k))"
    show ?thesis
    proof (cases "waits b k")
      case (Some e)
      then have "fbRetryLoop b N k evs = (Inl e, evs @ ?ev)"
        using lt nf by (simp add: fbRetryLoop_waitfail)
      then show ?thesis
        by (intro exI [of _ ?ev]) (simp add: fbRounds_attempt_fatal, simp add: fbAttemptEvents_def)
    next
      case None
      then have eq: "fbRetryLoop b N k evs = fbRetryLoop b N (Suc k) (evs @ ?ev)"
        using lt nf by (simp add: fbRetryLoop_continue)
      let ?out = "fbRetryLoop b N (Suc k) (evs @ ?ev)"
      let ?tail = "(case fst ?out of Inl e \<Rightarrow> [LogFatal e] | Inr v \<Rightarrow> [])"
      from Suc.hyps(1) [OF n, of "evs @ ?ev"]
      obtain ext where ev: "snd ?out = (evs @ ?ev) @ ext"
        and fr: "fbRounds (ext @ ?tail)"
        and ne: "(case fst ?out of Inl e \<Rightarrow> ext \<noteq> [] | Inr v \<Rightarrow> True)"
        by blast
      have 1: "snd ?out = evs @ (?ev @ ext)" using ev by simp
      have "fbRounds (?ev @ (ext @ ?tail))" using fr by (rule fbRounds_attempt)
      then have 2: "fbRounds ((?ev @ ext) @ ?tail)" by simp
      have 3: "?ev @ ext \<noteq> []" by (simp add: fbAttemptEvents_def)
      show ?thesis
        unfolding eq using 1 2 3
        by (intro exI [of _ "?ev @ ext"]) (simp split: sum.splits)
    qed
  qed
qed

lemma fb_rounds:
  assumes "fbStarts b g u opts"
  shows "\<exists>ext. snd (scrapeFacebookProfile b g u opts) = LogStart (normalizeFacebookUrl u) # ext
               \<and> fbRounds ext"
proof -
  let ?out = "fbLoop b u opts"
  from fbRetryLoop_rounds [of b "cfgMaxRetries (mkConfig 20 opts)" 0
         "[LogStart (normalizeFacebookUrl u)]", folded fbLoop_def]
  obtain ext where ev: "snd ?out = [LogStart (normalizeFacebookUrl u)] @ ext"
    and fr: "fbRounds (ext @ (case fst ?out of Inl e \<Rightarrow> [LogFatal e] | Inr v \<Rightarrow> []))"
    by blast
  show ?thesis
  proof (cases ?out)
    case (Pair res evs)
    then show ?thesis
      using ev fr assms
      by (intro exI [of _ "ext @ (case res of Inl e \<Rightarrow> [LogFatal e] | Inr v \<Rightarrow> [])"])
         (auto simp: scrape_started split: sum.splits option.splits)
  qed
qed

lemma fb_exhaustion_waits:
  assumes "fbStarts b g u opts"
    and "\<forall>k. int k < cfgMaxRetries (mkConfig 20 opts) \<longrightarrow>
           (\<forall>info. fbPass (pages b k) \<noteq> Inr (Some info)) \<and> waits b k = None"
  shows "length (waitCalls (snd (scrapeFacebookProfile b g u opts)))
           = nat (cfgMaxRetries (mkConfig 20 opts))"
proof -
  have f: "fst (fbLoop b u opts) = Inr None"
    unfolding fbLoop_def using assms(2) by (rule fbRetryLoop_exhausts)
  then show ?thesis
    using assms(1) fbLoop_events [of b u opts] by (auto simp: scrape_events count_simps)
qed

lemma fb_first_pass_waits:
  assumes "fbStarts b g u opts" and "0 < cfgMaxRetries (mkConfig 20 opts)"
    and "fbPass (pages b 0) = Inr (Some info)"
  shows "waitCalls (snd (scrapeFacebookProfile b g u opts)) = []"
  using fb_first_pass [OF assms] by (simp add: count_simps)

lemma fbRetryLoop_continue_events:
  assumes "int k < N" and "\<forall>info. fbPass (pages b k) \<noteq> Inr (Some info)" and "waits b k = None"
  shows "fbRetryLoop b N k evs
           = fbRetryLoop b N (Suc k)
               (evs @ LogAttempt (Suc k)
                      # (case fbPass (pages b k) of
                           Inl e \<Rightarrow> [LogAttemptError (Suc k) e] | Inr v \<Rightarrow> [])
                      @ [WaitForTimeout 1000])"
  using fbRetryLoop_continue [OF assms] by (simp add: fbAttemptEvents_def)

section \<open>The claims\<close>

text \<open>
  C9. Running the Pipeline on a page with zero matching signals yields a Result Record in
  which every field of the Field Set holds the empty string, and the completeness
  predicate is false. The pass does not throw and the record keeps its six keys.
\<close>

theorem no_signals_all_empty:
  "noSignals p \<Longrightarrow>
     fst (pass p initResult) = None
     \<and> map fst (snd (pass p initResult)) = ''contact'' # socialPlatforms
     \<and> list_all (\<lambda>v. v = []) (map snd (snd (pass p initResult)))
     \<and> \<not> hasSocialLinks (snd (pass p initResult))"
  by (simp add: pass_noSignals not_has_initResult)
     (simp add: initResult_eq socialPlatforms_def)

theorem no_signals_all_empty_witness:
  "noSignals quietPage
     \<and> fst (pass quietPage initResult) = None
     \<and> map fst (snd (pass quietPage initResult)) = ''contact'' # socialPlatforms
     \<and> list_all (\<lambda>v. v = []) (map snd (snd (pass quietPage initResult)))
     \<and> \<not> hasSocialLinks (snd (pass quietPage initResult))"
proof -
  have h: "noSignals quietPage" by code_simp
  show ?thesis using h no_signals_all_empty [OF h] by simp
qed

text \<open>
  C10. Result shape. Whenever the social-link extractor returns an object, either the
  navigation succeeded and the object has exactly the six keys contact, facebook,
  instagram, twitter, youtube, linkedin (each bound to a string, by the type of the
  object) and no \<^verbatim>\<open>error\<close> key, or the navigation failed and the object is the error
  record of that failure. The browser is arbitrary: exhaustion and attempts in which
  every query is rejected are included.
\<close>

theorem result_shape:
  "fst (extractSocialLinks b u opts) = Returned r \<Longrightarrow>
     (socialStarts b u opts \<and> map fst r = ''contact'' # socialPlatforms
        \<and> ''error'' \<notin> set (map fst r))
     \<or> (\<exists>e. goto b (normalizeUrl ''http://'' u) (cfgTimeout (mkConfig 30 opts)) = Some e
             \<and> r = [(''error'', e), (''url'', normalizeUrl ''http://'' u)])"
proof (cases "socialStarts b u opts")
  case True
  assume "fst (extractSocialLinks b u opts) = Returned r"
  then have "r = result (socialLoop b u opts)"
    using True by (simp add: extract_started finallyClose_def split: option.splits)
  then show ?thesis
    using True socialLoop_keys [of b u opts] error_not_field by (simp add: fieldSet_def)
next
  case False
  assume "fst (extractSocialLinks b u opts) = Returned r"
  then show ?thesis
    using False
    by (auto simp: socialStarts_def extractSocialLinks_def Let_def finallyClose_def
          errorRecord_def split: option.splits)
qed

theorem result_shape_witness:
  "fst (extractSocialLinks (steadyBrowser closingPage) ''example.com''
          (noOptions\<lparr>maxRetries := Some 2\<rparr>)) = Returned initResult
   \<and> socialStarts (steadyBrowser closingPage) ''example.com'' (noOptions\<lparr>maxRetries := Some 2\<rparr>)
   \<and> map fst initResult = ''contact'' # socialPlatforms
   \<and> ''error'' \<notin> set (map fst initResult)"
proof -
  have h: "fst (extractSocialLinks (steadyBrowser closingPage) ''example.com''
          (noOptions\<lparr>maxRetries := Some 2\<rparr>)) = Returned initResult"
    by code_simp
  have n: "goto (steadyBrowser closingPage) (normalizeUrl ''http://'' ''example.com'')
             (cfgTimeout (mkConfig 30 (noOptions\<lparr>maxRetries := Some 2\<rparr>))) = None"
    by (simp add: steadyBrowser_def)
  have d: "\<not> (\<exists>e. goto (steadyBrowser closingPage) (normalizeUrl ''http://'' ''example.com'')
             (cfgTimeout (mkConfig 30 (noOptions\<lparr>maxRetries := Some 2\<rparr>))) = Some e
             \<and> initResult = [(''error'', e), (''url'', normalizeUrl ''http://'' ''example.com'')])"
    using n by simp
  from result_shape [OF h] d
  have "socialStarts (steadyBrowser closingPage) ''example.com'' (noOptions\<lparr>maxRetries := Some 2\<rparr>)
        \<and> map fst initResult = ''contact'' # socialPlatforms
        \<and> ''error'' \<notin> set (map fst initResult)"
    by blast
  with h show ?thesis by blast
qed

text \<open>
  C2. First-found-wins. Once a field \<open>F\<close> holds a non-empty value, no strategy run
  changes it: not \<^verbatim>\<open>extractLinksFrom\<close>, not any of the six strategies, not a whole
  pass, and not the retry loop with all its passes. A pass against a result whose fields
  are all resolved returns that result unchanged, and the retry loop started on a result
  that already holds a link returns at once, with nothing changed.
\<close>

theorem first_found_wins:
  "(\<not> falsyProp r F \<longrightarrow>
      map_of (snd (extractLinksFrom el r)) F = map_of r F
      \<and> map_of (snd (strategy1 p r)) F = map_of r F
      \<and> map_of (snd (strategy2 p r)) F = map_of r F
      \<and> map_of (snd (strategy3 p r)) F = map_of r F
      \<and> map_of (snd (strategy4 p r)) F = map_of r F
      \<and> map_of (snd (strategy5 p r)) F = map_of r F
      \<and> map_of (snd (strategy6 p r)) F = map_of r F
      \<and> map_of (snd (pass p r)) F = map_of r F)
   \<and> (\<not> falsyProp (result s) F \<longrightarrow>
        map_of (result (retryLoop b N a s)) F = map_of (result s) F)
   \<and> (allResolved r' \<longrightarrow> snd (pass p r') = r')
   \<and> (hasSocialLinks (result s') \<longrightarrow> retryLoop b N a s' = s')"
proof (intro conjI impI)
  assume "hasSocialLinks (result s')"
  then show "retryLoop b N a s' = s'" by (simp add: retryLoop_stop)
next
  assume "allResolved r'"
  then show "snd (pass p r') = r'" using grows_pass [of r' p] by (simp add: grows_def)
next
  assume "\<not> falsyProp (result s) F"
  then show "map_of (result (retryLoop b N a s)) F = map_of (result s) F"
    using retryLoop_grows [of s b N a] by (simp add: grows_def)
qed (simp_all add: grows_extractLinksFrom [unfolded grows_def]
       grows_strategy1 [unfolded grows_def] grows_strategy2 [unfolded grows_def]
       grows_strategy3 [unfolded grows_def] grows_strategy4 [unfolded grows_def]
       grows_strategy5 [unfolded grows_def] grows_strategy6 [unfolded grows_def]
       grows_pass [unfolded grows_def])

theorem first_found_wins_witness:
  "\<not> falsyProp oneFound ''facebook''
   \<and> map_of (snd (pass rivalPage oneFound)) ''facebook'' = Some ''https://facebook.com/first''
   \<and> map_of (result (retryLoop (steadyBrowser rivalPage) 3 0 \<lparr>result = oneFound, events = []\<rparr>))
        ''facebook'' = Some ''https://facebook.com/first''
   \<and> allResolved fullRecord
   \<and> snd (pass rivalPage fullRecord) = fullRecord
   \<and> hasSocialLinks oneFound
   \<and> retryLoop (steadyBrowser rivalPage) 3 0 \<lparr>result = oneFound, events = []\<rparr>
       = \<lparr>result = oneFound, events = []\<rparr>"
proof -
  have h1: "\<not> falsyProp oneFound ''facebook''" by code_simp
  have h2: "allResolved fullRecord" by code_simp
  have h3: "hasSocialLinks oneFound" by code_simp
  have v: "map_of oneFound ''facebook'' = Some ''https://facebook.com/first''" by code_simp
  show ?thesis
    using h1 h2 h3 v
      first_found_wins [of oneFound "''facebook''" "anchors rivalPage" rivalPage
        "\<lparr>result = oneFound, events = []\<rparr>" "steadyBrowser rivalPage" 3 0 fullRecord
        "\<lparr>result = oneFound, events = []\<rparr>"]
    by simp
qed



text \<open>
  C5, as stated, fails for 0: with \<^verbatim>\<open>maxRetries = 0\<close> the condition of the loop is false
  at once, so no pass runs and the all-empty record is returned, even on a page where one
  pass would find a link; with 1 there is exactly one pass.
\<close>

theorem zero_retries_runs_no_pass:
  "passes (snd (extractSocialLinks (steadyBrowser instagramPage) ''example.com'' noAttempts)) = 0
   \<and> fst (extractSocialLinks (steadyBrowser instagramPage) ''example.com'' noAttempts)
       = Returned initResult
   \<and> passes (snd (extractSocialLinks (steadyBrowser instagramPage) ''example.com'' oneAttempt)) = 1"
  by code_simp

text \<open>
  C5, amended. With \<^verbatim>\<open>maxRetries = 1\<close> a run that reaches its loop makes exactly one
  pass (and the social-link extractor asks for no wait). With \<^verbatim>\<open>maxRetries\<close> 0 or
  less it makes no pass at all, asks for no wait, and returns the all-empty record.
\<close>

theorem retry_edge_cases:
  "(socialStarts b u opts \<and> cfgMaxRetries (mkConfig 30 opts) = 1 \<longrightarrow>
      passes (snd (extractSocialLinks b u opts)) = 1
      \<and> waitCalls (snd (extractSocialLinks b u opts)) = [])
   \<and> (socialStarts b0 u0 o0 \<and> cfgMaxRetries (mkConfig 30 o0) \<le> 0 \<and> close b0 = None \<longrightarrow>
      passes (snd (extractSocialLinks b0 u0 o0)) = 0
      \<and> waitCalls (snd (extractSocialLinks b0 u0 o0)) = []
      \<and> fst (extractSocialLinks b0 u0 o0) = Returned initResult)
   \<and> (fbStarts fb g v fo \<and> cfgMaxRetries (mkConfig 20 fo) = 1 \<longrightarrow>
      passes (snd (scrapeFacebookProfile fb g v fo)) = 1)
   \<and> (fbStarts fb0 g0 v0 fo0 \<and> cfgMaxRetries (mkConfig 20 fo0) \<le> 0 \<and> close fb0 = None \<longrightarrow>
      passes (snd (scrapeFacebookProfile fb0 g0 v0 fo0)) = 0
      \<and> waitCalls (snd (scrapeFacebookProfile fb0 g0 v0 fo0)) = []
      \<and> fst (scrapeFacebookProfile fb0 g0 v0 fo0) = Returned emptyProfile)"
proof (intro conjI impI)
  assume a: "socialStarts b u opts \<and> cfgMaxRetries (mkConfig 30 opts) = 1"
  then show "passes (snd (extractSocialLinks b u opts)) = 1"
    and "waitCalls (snd (extractSocialLinks b u opts)) = []"
    using social_one_attempt [of b u opts] by blast+
next
  assume a: "socialStarts b0 u0 o0 \<and> cfgMaxRetries (mkConfig 30 o0) \<le> 0 \<and> close b0 = None"
  then have l: "socialLoop b0 u0 o0
           = \<lparr>result = initResult, events = [LogStart (normalizeUrl ''http://'' u0)]\<rparr>"
    by (simp add: social_no_attempts)
  show "passes (snd (extractSocialLinks b0 u0 o0)) = 0"
    and "waitCalls (snd (extractSocialLinks b0 u0 o0)) = []"
    and "fst (extractSocialLinks b0 u0 o0) = Returned initResult"
    using a l by (simp_all add: extract_started count_simps finallyClose_def)
next
  assume "fbStarts fb g v fo \<and> cfgMaxRetries (mkConfig 20 fo) = 1"
  then show "passes (snd (scrapeFacebookProfile fb g v fo)) = 1"
    by (simp add: fb_one_attempt)
next
  assume a: "fbStarts fb0 g0 v0 fo0 \<and> cfgMaxRetries (mkConfig 20 fo0) \<le> 0 \<and> close fb0 = None"
  then have l: "fbLoop fb0 v0 fo0 = (Inr None, [LogStart (normalizeFacebookUrl v0)])"
    by (simp add: fb_no_attempts)
  show "passes (snd (scrapeFacebookProfile fb0 g0 v0 fo0)) = 0"
    and "waitCalls (snd (scrapeFacebookProfile fb0 g0 v0 fo0)) = []"
    and "fst (scrapeFacebookProfile fb0 g0 v0 fo0) = Returned emptyProfile"
    using a l by (simp_all add: scrape_started count_simps finallyClose_def)
qed

theorem retry_edge_cases_witness:
  "socialStarts (steadyBrowser quietPage) ''example.com'' oneAttempt
   \<and> cfgMaxRetries (mkConfig 30 oneAttempt) = 1
   \<and> passes (snd (extractSocialLinks (steadyBrowser quietPage) ''example.com'' oneAttempt)) = 1
   \<and> waitCalls (snd (extractSocialLinks (steadyBrowser quietPage) ''example.com'' oneAttempt)) = []
   \<and> socialStarts (steadyBrowser instagramPage) ''example.com'' noAttempts
   \<and> cfgMaxRetries (mkConfig 30 noAttempts) \<le> 0
   \<and> passes (snd (extractSocialLinks (steadyBrowser instagramPage) ''example.com'' noAttempts)) = 0
   \<and> fst (extractSocialLinks (steadyBrowser instagramPage) ''example.com'' noAttempts)
       = Returned initResult
   \<and> fbStarts (steadyBrowser emptyFbPage) clearGuard ''facebook.com/acme'' oneAttempt
   \<and> passes (snd (scrapeFacebookProfile (steadyBrowser emptyFbPage) clearGuard
                    ''facebook.com/acme'' oneAttempt)) = 1
   \<and> fbStarts (steadyBrowser bakeryFbPage) clearGuard ''facebook.com/acme'' noAttempts
   \<and> passes (snd (scrapeFacebookProfile (steadyBrowser bakeryFbPage) clearGuard
                    ''facebook.com/acme'' noAttempts)) = 0
   \<and> fst (scrapeFacebookProfile (steadyBrowser bakeryFbPage) clearGuard
             ''facebook.com/acme'' noAttempts) = Returned emptyProfile"
proof -
  note T = retry_edge_cases [of "steadyBrowser quietPage" "''example.com''" oneAttempt
      "steadyBrowser instagramPage" "''example.com''" noAttempts
      "steadyBrowser emptyFbPage" clearGuard "''facebook.com/acme''" oneAttempt
      "steadyBrowser bakeryFbPage" clearGuard "''facebook.com/acme''" noAttempts]
  have n: "cfgMaxRetries (mkConfig 30 oneAttempt) = 1" "cfgMaxRetries (mkConfig 20 oneAttempt) = 1"
    "cfgMaxRetries (mkConfig 30 noAttempts) \<le> 0" "cfgMaxRetries (mkConfig 20 noAttempts) \<le> 0"
    by (simp_all add: mkConfig_def oneAttempt_def noAttempts_def noOptions_def)
  have cl: "close (steadyBrowser instagramPage) = None" "close (steadyBrowser bakeryFbPage) = None"
    by (simp_all add: steadyBrowser_def)
  have s1: "socialStarts (steadyBrowser quietPage) ''example.com'' oneAttempt"
    by (simp add: socialStarts_def steadyBrowser_def)
  have s0: "socialStarts (steadyBrowser instagramPage) ''example.com'' noAttempts"
    by (simp add: socialStarts_def steadyBrowser_def)
  have g: "captchaDetected clearGuard = Inr False" by code_simp
  have f1: "fbStarts (steadyBrowser emptyFbPage) clearGuard ''facebook.com/acme'' oneAttempt"
    using g by (simp add: fbStarts_def steadyBrowser_def)
  have f0: "fbStarts (steadyBrowser bakeryFbPage) clearGuard ''facebook.com/acme'' noAttempts"
    using g by (simp add: fbStarts_def steadyBrowser_def)
  have c1: "passes (snd (extractSocialLinks (steadyBrowser quietPage) ''example.com'' oneAttempt)) = 1
      \<and> waitCalls (snd (extractSocialLinks (steadyBrowser quietPage) ''example.com'' oneAttempt)) = []"
    using T s1 n(1) by blast
  have c2: "passes (snd (extractSocialLinks (steadyBrowser instagramPage) ''example.com'' noAttempts)) = 0
      \<and> waitCalls (snd (extractSocialLinks (steadyBrowser instagramPage) ''example.com'' noAttempts)) = []
      \<and> fst (extractSocialLinks (steadyBrowser instagramPage) ''example.com'' noAttempts)
          = Returned initResult"
    using T s0 n(3) cl(1) by blast
  have c3: "passes (snd (scrapeFacebookProfile (steadyBrowser emptyFbPage) clearGuard
                    ''facebook.com/acme'' oneAttempt)) = 1"
    using T f1 n(2) by blast
  have c4: "passes (snd (scrapeFacebookProfile (steadyBrowser bakeryFbPage) clearGuard
                    ''facebook.com/acme'' noAttempts)) = 0
      \<and> waitCalls (snd (scrapeFacebookProfile (steadyBrowser bakeryFbPage) clearGuard
                    ''facebook.com/acme'' noAttempts)) = []
      \<and> fst (scrapeFacebookProfile (steadyBrowser bakeryFbPage) clearGuard
             ''facebook.com/acme'' noAttempts) = Returned emptyProfile"
    using T f0 n(4) cl(2) by blast
  show ?thesis
    using c1 c2 c3 c4 s1 s0 f1 f0 n by blast
qed

text \<open>
  C7, as stated, fails: a caller-supplied \<^verbatim>\<open>delayMs\<close> of 5 is copied into the
  configuration, and the wait between the two passes is still asked for with 1000.
\<close>

theorem delayMs_not_honoured:
  "cfgOthers (mkConfig 30 fiveMsDelay) = [(''delayMs'', 5)]
   \<and> waitCalls (snd (extractSocialLinks (steadyBrowser blankPage) ''example.com'' fiveMsDelay))
       = [1000]"
  by code_simp

text \<open>
  C7, amended. Every wait a run asks for is of 1000 ms, in both scrapers, and no key of
  the options beyond \<^verbatim>\<open>headless\<close>, \<^verbatim>\<open>timeout\<close> and \<^verbatim>\<open>maxRetries\<close> has any effect
  on the run.

  In the social-link extractor a pass that neither throws nor finds anything, with
  attempts left, is followed by one wait of 1000 ms and then the next pass; a pass that
  throws is followed by the next pass at once, without a wait; no wait follows the last
  pass. The events of every run have this shape (\<open>socialRounds\<close>), so there are fewer
  waits than passes, and exactly one between each two consecutive passes when no attempt
  logged an error.

  In the Facebook scraper every attempt that does not find a profile, thrown or not, is
  followed by one wait of 1000 ms, also the last one; an attempt that finds a profile is
  followed by none (\<open>fbRounds\<close>). A run whose attempts all find nothing makes as many
  waits as \<^verbatim>\<open>maxRetries\<close>; a run whose first attempt finds a profile makes none.
\<close>

theorem fixed_wait:
  "list_all (\<lambda>ms. ms = 1000) (waitCalls (snd (extractSocialLinks b u opts)))
   \<and> extractSocialLinks b u (opts\<lparr>others := x\<rparr>) = extractSocialLinks b u opts
   \<and> (1 \<le> passes (snd (extractSocialLinks b u opts)) \<longrightarrow>
        length (waitCalls (snd (extractSocialLinks b u opts))) + 1
          \<le> passes (snd (extractSocialLinks b u opts)))
   \<and> (1 \<le> passes (snd (extractSocialLinks b u opts))
        \<and> errorCount (snd (extractSocialLinks b u opts)) = 0 \<longrightarrow>
        length (waitCalls (snd (extractSocialLinks b u opts))) + 1
          = passes (snd (extractSocialLinks b u opts)))
   \<and> list_all (\<lambda>ms. ms = 1000) (waitCalls (snd (scrapeFacebookProfile fb g v fo)))
   \<and> scrapeFacebookProfile fb g v (fo\<lparr>others := y\<rparr>) = scrapeFacebookProfile fb g v fo
   \<and> (socialStarts b u opts \<longrightarrow>
        (\<exists>ext. snd (extractSocialLinks b u opts) = LogStart (normalizeUrl ''http://'' u) # ext
               \<and> socialRounds ext))
   \<and> (int a < N \<and> \<not> hasSocialLinks (result s) \<and> pass (pages sb a) (result s) = (None, r)
        \<and> \<not> hasSocialLinks r \<and> int (Suc a) < N \<longrightarrow>
        retryLoop sb N a s
          = retryLoop sb N (Suc a)
              \<lparr>result = r,
               events = events s @ [LogAttempt (Suc a), LogFound r, WaitForTimeout 1000]
                        @ (case waits sb a of
                             Some e \<Rightarrow> [LogAttemptError (Suc a) e] | None \<Rightarrow> [])\<rparr>)
   \<and> (int a' < N' \<and> \<not> hasSocialLinks (result s')
        \<and> pass (pages tb a') (result s') = (Some e', r') \<longrightarrow>
        retryLoop tb N' a' s'
          = retryLoop tb N' (Suc a')
              \<lparr>result = r',
               events = events s' @ [LogAttempt (Suc a'), LogAttemptError (Suc a') e']\<rparr>)
   \<and> (fbStarts fb g v fo \<longrightarrow>
        (\<exists>ext. snd (scrapeFacebookProfile fb g v fo) = LogStart (normalizeFacebookUrl v) # ext
               \<and> fbRounds ext))
   \<and> (int k < M \<and> (\<forall>info. fbPass (pages fl k) \<noteq> Inr (Some info)) \<and> waits fl k = None \<longrightarrow>
        fbRetryLoop fl M k evs
          = fbRetryLoop fl M (Suc k)
              (evs @ LogAttempt (Suc k)
                     # (case fbPass (pages fl k) of
                          Inl e \<Rightarrow> [LogAttemptError (Suc k) e] | Inr v \<Rightarrow> [])
                     @ [WaitForTimeout 1000]))
   \<and> (fbStarts fe ge ve oe
        \<and> (\<forall>k. int k < cfgMaxRetries (mkConfig 20 oe) \<longrightarrow>
              (\<forall>info. fbPass (pages fe k) \<noteq> Inr (Some info)) \<and> waits fe k = None) \<longrightarrow>
        length (waitCalls (snd (scrapeFacebookProfile fe ge ve oe)))
          = nat (cfgMaxRetries (mkConfig 20 oe)))
   \<and> (fbStarts ff gf vf off \<and> 0 < cfgMaxRetries (mkConfig 20 off)
        \<and> fbPass (pages ff 0) = Inr (Some info) \<longrightarrow>
        waitCalls (snd (scrapeFacebookProfile ff gf vf off)) = [])"
proof (intro conjI impI)
  show "list_all (\<lambda>ms. ms = 1000) (waitCalls (snd (extractSocialLinks b u opts)))"
    by (rule social_wait_ms)
  show "extractSocialLinks b u (opts\<lparr>others := x\<rparr>) = extractSocialLinks b u opts"
    by (rule social_ignores_others)
  show "list_all (\<lambda>ms. ms = 1000) (waitCalls (snd (scrapeFacebookProfile fb g v fo)))"
    by (rule fb_waits)
  show "scrapeFacebookProfile fb g v (fo\<lparr>others := y\<rparr>) = scrapeFacebookProfile fb g v fo"
    by (rule fb_ignores_others)
next
  assume "1 \<le> passes (snd (extractSocialLinks b u opts))"
  then show "length (waitCalls (snd (extractSocialLinks b u opts))) + 1
          \<le> passes (snd (extractSocialLinks b u opts))"
    using social_wait_count [of b u opts] by blast
next
  assume a: "1 \<le> passes (snd (extractSocialLinks b u opts))
        \<and> errorCount (snd (extractSocialLinks b u opts)) = 0"
  then have "length (waitCalls (snd (extractSocialLinks b u opts))) + 1
           \<le> passes (snd (extractSocialLinks b u opts))
         \<and> passes (snd (extractSocialLinks b u opts))
           \<le> length (waitCalls (snd (extractSocialLinks b u opts)))
              + errorCount (snd (extractSocialLinks b u opts)) + 1"
    using social_wait_count [of b u opts] by blast
  then show "length (waitCalls (snd (extractSocialLinks b u opts))) + 1
          = passes (snd (extractSocialLinks b u opts))"
    using a by linarith
next
  assume "socialStarts b u opts"
  then show "\<exists>ext. snd (extractSocialLinks b u opts) = LogStart (normalizeUrl ''http://'' u) # ext
               \<and> socialRounds ext"
    by (rule social_rounds)
next
  assume "int a < N \<and> \<not> hasSocialLinks (result s) \<and> pass (pages sb a) (result s) = (None, r)
        \<and> \<not> hasSocialLinks r \<and> int (Suc a) < N"
  then show "retryLoop sb N a s
          = retryLoop sb N (Suc a)
              \<lparr>result = r,
               events = events s @ [LogAttempt (Suc a), LogFound r, WaitForTimeout 1000]
                        @ (case waits sb a of
                             Some e \<Rightarrow> [LogAttemptError (Suc a) e] | None \<Rightarrow> [])\<rparr>"
    using retryLoop_wait [of a N s sb r] by (simp add: afterWait_def)
next
  assume "int a' < N' \<and> \<not> hasSocialLinks (result s')
        \<and> pass (pages tb a') (result s') = (Some e', r')"
  then show "retryLoop tb N' a' s'
          = retryLoop tb N' (Suc a')
              \<lparr>result = r',
               events = events s' @ [LogAttempt (Suc a'), LogAttemptError (Suc a') e']\<rparr>"
    using retryLoop_throw [of a' N' s' tb e' r'] by (simp add: afterThrow_def)
next
  assume "fbStarts fb g v fo"
  then show "\<exists>ext. snd (scrapeFacebookProfile fb g v fo) = LogStart (normalizeFacebookUrl v) # ext
               \<and> fbRounds ext"
    by (rule fb_rounds)
next
  assume "int k < M \<and> (\<forall>info. fbPass (pages fl k) \<noteq> Inr (Some info)) \<and> waits fl k = None"
  then show "fbRetryLoop fl M k evs
          = fbRetryLoop fl M (Suc k)
              (evs @ LogAttempt (Suc k)
                     # (case fbPass (pages fl k) of
                          Inl e \<Rightarrow> [LogAttemptError (Suc k) e] | Inr v \<Rightarrow> [])
                     @ [WaitForTimeout 1000])"
    by (simp add: fbRetryLoop_continue_events)
next
  assume "fbStarts fe ge ve oe
        \<and> (\<forall>k. int k < cfgMaxRetries (mkConfig 20 oe) \<longrightarrow>
              (\<forall>info. fbPass (pages fe k) \<noteq> Inr (Some info)) \<and> waits fe k = None)"
  then show "length (waitCalls (snd (scrapeFacebookProfile fe ge ve oe)))
          = nat (cfgMaxRetries (mkConfig 20 oe))"
    using fb_exhaustion_waits [of fe ge ve oe] by blast
next
  assume "fbStarts ff gf vf off \<and> 0 < cfgMaxRetries (mkConfig 20 off)
        \<and> fbPass (pages ff 0) = Inr (Some info)"
  then show "waitCalls (snd (scrapeFacebookProfile ff gf vf off)) = []"
    using fb_first_pass_waits [of ff gf vf off info] by blast
qed

theorem fixed_wait_witness:
  "snd (extractSocialLinks (steadyBrowser blankPage) ''example.com'' twoAttempts)
     = [LogStart ''http://example.com'', LogAttempt 1, LogFound initResult,
        WaitForTimeout 1000, LogAttempt 2, LogFound initResult]
   \<and> socialRounds [LogAttempt 1, LogFound initResult, WaitForTimeout 1000,
                    LogAttempt 2, LogFound initResult]
   \<and> errorCount (snd (extractSocialLinks (steadyBrowser blankPage) ''example.com'' twoAttempts)) = 0
   \<and> length (waitCalls (snd (extractSocialLinks (steadyBrowser blankPage) ''example.com'' twoAttempts))) + 1
       = passes (snd (extractSocialLinks (steadyBrowser blankPage) ''example.com'' twoAttempts))
   \<and> extractSocialLinks (steadyBrowser blankPage) ''example.com''
        (twoAttempts\<lparr>others := [(''delayMs'', 5)]\<rparr>)
       = extractSocialLinks (steadyBrowser blankPage) ''example.com'' twoAttempts
   \<and> retryLoop (steadyBrowser blankPage) 2 0 \<lparr>result = initResult, events = []\<rparr>
       = retryLoop (steadyBrowser blankPage) 2 1
           \<lparr>result = initResult,
            events = [LogAttempt 1, LogFound initResult, WaitForTimeout 1000]\<rparr>
   \<and> pass closingPage initResult = (Some ''Target closed'', initResult)
   \<and> retryLoop (steadyBrowser closingPage) 2 0 \<lparr>result = initResult, events = []\<rparr>
       = retryLoop (steadyBrowser closingPage) 2 1
           \<lparr>result = initResult, events = [LogAttempt 1, LogAttemptError 1 ''Target closed'']\<rparr>
   \<and> fbStarts (steadyBrowser emptyFbPage) clearGuard ''facebook.com/acme'' twoAttempts
   \<and> snd (scrapeFacebookProfile (steadyBrowser emptyFbPage) clearGuard ''facebook.com/acme''
             twoAttempts)
       = [LogStart ''https://facebook.com/acme'', LogAttempt 1, WaitForTimeout 1000,
          LogAttempt 2, WaitForTimeout 1000]
   \<and> fbRounds [LogAttempt 1, WaitForTimeout 1000, LogAttempt 2, WaitForTimeout 1000]
   \<and> length (waitCalls (snd (scrapeFacebookProfile (steadyBrowser emptyFbPage) clearGuard
                              ''facebook.com/acme'' twoAttempts))) = 2
   \<and> fbRetryLoop (steadyBrowser emptyFbPage) 2 0 []
       = fbRetryLoop (steadyBrowser emptyFbPage) 2 1 [LogAttempt 1, WaitForTimeout 1000]
   \<and> fbStarts (steadyBrowser bakeryFbPage) clearGuard ''facebook.com/acme'' noOptions
   \<and> waitCalls (snd (scrapeFacebookProfile (steadyBrowser bakeryFbPage) clearGuard
                      ''facebook.com/acme'' noOptions)) = []"
proof -
  note T = fixed_wait [where b = "steadyBrowser blankPage" and u = "''example.com''"
      and opts = twoAttempts and x = "[(''delayMs'', 5)]"
      and fb = "steadyBrowser emptyFbPage" and g = clearGuard and v = "''facebook.com/acme''"
      and fo = twoAttempts and y = "[(''delayMs'', 5)]"
      and a = 0 and N = 2 and s = "\<lparr>result = initResult, events = []\<rparr>"
      and sb = "steadyBrowser blankPage" and r = initResult
      and a' = 0 and N' = 2 and s' = "\<lparr>result = initResult, events = []\<rparr>"
      and tb = "steadyBrowser closingPage" and e' = "''Target closed''" and r' = initResult
      and k = 0 and M = 2 and fl = "steadyBrowser emptyFbPage" and evs = "[]"
      and fe = "steadyBrowser emptyFbPage" and ge = clearGuard and ve = "''facebook.com/acme''"
      and oe = twoAttempts
      and ff = "steadyBrowser bakeryFbPage" and gf = clearGuard and vf = "''facebook.com/acme''"
      and off = noOptions and info = bakeryProfile]
  have ev: "snd (extractSocialLinks (steadyBrowser blankPage) ''example.com'' twoAttempts)
     = [LogStart ''http://example.com'', LogAttempt 1, LogFound initResult,
        WaitForTimeout 1000, LogAttempt 2, LogFound initResult]"
    by code_simp
  have st: "socialStarts (steadyBrowser blankPage) ''example.com'' twoAttempts"
    by (simp add: socialStarts_def steadyBrowser_def)
  have "\<exists>ext. snd (extractSocialLinks (steadyBrowser blankPage) ''example.com'' twoAttempts)
                 = LogStart (normalizeUrl ''http://'' ''example.com'') # ext
               \<and> socialRounds ext"
    using T st by blast
  then have c1: "socialRounds [LogAttempt 1, LogFound initResult, WaitForTimeout 1000,
                    LogAttempt 2, LogFound initResult]"
    unfolding ev by auto
  have p1: "1 \<le> passes (snd (extractSocialLinks (steadyBrowser blankPage) ''example.com'' twoAttempts))"
    unfolding ev by (simp add: count_simps)
  have e0: "errorCount (snd (extractSocialLinks (steadyBrowser blankPage) ''example.com'' twoAttempts)) = 0"
    unfolding ev by (simp add: count_simps)
  have c2: "length (waitCalls (snd (extractSocialLinks (steadyBrowser blankPage) ''example.com'' twoAttempts))) + 1
       = passes (snd (extractSocialLinks (steadyBrowser blankPage) ''example.com'' twoAttempts))"
    using T p1 e0 by blast
  have c3: "extractSocialLinks (steadyBrowser blankPage) ''example.com''
        (twoAttempts\<lparr>others := [(''delayMs'', 5)]\<rparr>)
       = extractSocialLinks (steadyBrowser blankPage) ''example.com'' twoAttempts"
    using T by blast
  have pb: "pass (pages (steadyBrowser blankPage) 0) (result \<lparr>result = initResult, events = []\<rparr>)
              = (None, initResult)"
    by code_simp
  have nh: "\<not> hasSocialLinks (result \<lparr>result = initResult, events = []\<rparr>)"
    "\<not> hasSocialLinks initResult"
    by (simp_all add: not_has_initResult)
  have lt: "int 0 < 2" "int (Suc 0) < 2" by simp_all
  have "retryLoop (steadyBrowser blankPage) 2 0 \<lparr>result = initResult, events = []\<rparr>
          = retryLoop (steadyBrowser blankPage) 2 (Suc 0)
              \<lparr>result = initResult,
               events = events \<lparr>result = initResult, events = []\<rparr>
                        @ [LogAttempt (Suc 0), LogFound initResult, WaitForTimeout 1000]
                        @ (case waits (steadyBrowser blankPage) 0 of
                             Some e \<Rightarrow> [LogAttemptError (Suc 0) e] | None \<Rightarrow> [])\<rparr>"
    using T pb nh lt by blast
  then have c4: "retryLoop (steadyBrowser blankPage) 2 0 \<lparr>result = initResult, events = []\<rparr>
       = retryLoop (steadyBrowser blankPage) 2 1
           \<lparr>result = initResult,
            events = [LogAttempt 1, LogFound initResult, WaitForTimeout 1000]\<rparr>"
    by (simp add: steadyBrowser_def)
  have pc0: "pass closingPage initResult = (Some ''Target closed'', initResult)" by code_simp
  then have pc: "pass (pages (steadyBrowser closingPage) 0)
                   (result \<lparr>result = initResult, events = []\<rparr>)
              = (Some ''Target closed'', initResult)"
    by (simp add: steadyBrowser_def)
  have "retryLoop (steadyBrowser closingPage) 2 0 \<lparr>result = initResult, events = []\<rparr>
          = retryLoop (steadyBrowser closingPage) 2 (Suc 0)
              \<lparr>result = initResult,
               events = events \<lparr>result = initResult, events = []\<rparr>
                        @ [LogAttempt (Suc 0), LogAttemptError (Suc 0) ''Target closed'']\<rparr>"
    using T pc nh lt by blast
  then have c5: "retryLoop (steadyBrowser closingPage) 2 0 \<lparr>result = initResult, events = []\<rparr>
       = retryLoop (steadyBrowser closingPage) 2 1
           \<lparr>result = initResult, events = [LogAttempt 1, LogAttemptError 1 ''Target closed'']\<rparr>"
    by simp
  have gd: "captchaDetected clearGuard = Inr False" by code_simp
  have f1: "fbStarts (steadyBrowser emptyFbPage) clearGuard ''facebook.com/acme'' twoAttempts"
    using gd by (simp add: fbStarts_def steadyBrowser_def)
  have f2: "fbStarts (steadyBrowser bakeryFbPage) clearGuard ''facebook.com/acme'' noOptions"
    using gd by (simp add: fbStarts_def steadyBrowser_def)
  have fev: "snd (scrapeFacebookProfile (steadyBrowser emptyFbPage) clearGuard ''facebook.com/acme''
             twoAttempts)
       = [LogStart ''https://facebook.com/acme'', LogAttempt 1, WaitForTimeout 1000,
          LogAttempt 2, WaitForTimeout 1000]"
    by code_simp
  have "\<exists>ext. snd (scrapeFacebookProfile (steadyBrowser emptyFbPage) clearGuard
                      ''facebook.com/acme'' twoAttempts)
                 = LogStart (normalizeFacebookUrl ''facebook.com/acme'') # ext
               \<and> fbRounds ext"
    using T f1 by blast
  then have c6: "fbRounds [LogAttempt 1, WaitForTimeout 1000, LogAttempt 2, WaitForTimeout 1000]"
    unfolding fev by auto
  have ep: "fbPass emptyFbPage = Inr None" by code_simp
  have n2: "cfgMaxRetries (mkConfig 20 twoAttempts) = 2"
    by (simp add: mkConfig_def twoAttempts_def noOptions_def)
  have ex: "\<forall>k. int k < cfgMaxRetries (mkConfig 20 twoAttempts) \<longrightarrow>
              (\<forall>info. fbPass (pages (steadyBrowser emptyFbPage) k) \<noteq> Inr (Some info))
              \<and> waits (steadyBrowser emptyFbPage) k = None"
    by (simp add: steadyBrowser_def ep)
  have "length (waitCalls (snd (scrapeFacebookProfile (steadyBrowser emptyFbPage) clearGuard
                              ''facebook.com/acme'' twoAttempts)))
          = nat (cfgMaxRetries (mkConfig 20 twoAttempts))"
    using T f1 ex by blast
  then have c7: "length (waitCalls (snd (scrapeFacebookProfile (steadyBrowser emptyFbPage) clearGuard
                              ''facebook.com/acme'' twoAttempts))) = 2"
    using n2 by simp
  have s1: "\<forall>info. fbPass (pages (steadyBrowser emptyFbPage) 0) \<noteq> Inr (Some info)"
    "waits (steadyBrowser emptyFbPage) 0 = None"
    by (simp_all add: steadyBrowser_def ep)
  have "fbRetryLoop (steadyBrowser emptyFbPage) 2 0 []
          = fbRetryLoop (steadyBrowser emptyFbPage) 2 (Suc 0)
              ([] @ LogAttempt (Suc 0)
                     # (case fbPass (pages (steadyBrowser emptyFbPage) 0) of
                          Inl e \<Rightarrow> [LogAttemptError (Suc 0) e] | Inr v \<Rightarrow> [])
                     @ [WaitForTimeout 1000])"
    using T lt(1) s1 by blast
  then have c8: "fbRetryLoop (steadyBrowser emptyFbPage) 2 0 []
       = fbRetryLoop (steadyBrowser emptyFbPage) 2 1 [LogAttempt 1, WaitForTimeout 1000]"
    by (simp add: steadyBrowser_def ep)
  have n0: "0 < cfgMaxRetries (mkConfig 20 noOptions)" by (simp add: mkConfig_def noOptions_def)
  have bp: "fbPass (pages (steadyBrowser bakeryFbPage) 0) = Inr (Some bakeryProfile)"
    by code_simp
  have c9: "waitCalls (snd (scrapeFacebookProfile (steadyBrowser bakeryFbPage) clearGuard
                      ''facebook.com/acme'' noOptions)) = []"
    using T f2 n0 bp by blast
  show ?thesis
    using ev c1 e0 c2 c3 c4 pc0 c5 f1 fev c6 c7 c8 f2 c9 by blast
qed




text \<open>
  C4, as stated, fails: after strategy 1 has resolved every field the pass still runs
  strategies 2 and 3, as the rejection of the query of strategy 3 shows.
\<close>

theorem no_early_stop_between_strategies:
  "strategy1 fullHeaderPage initResult = (None, fullRecord)
   \<and> allResolved fullRecord
   \<and> pass fullHeaderPage initResult = (Some ''Target closed'', fullRecord)"
  by code_simp

text \<open>
  C4, amended. Within one pass the predicate "some field is resolved" is checked before
  strategy 5 and again before strategy 6, and each of the two is skipped when it holds:
  the pass then ends with the record it has, and the links of the document or the markup
  are not even read. Strategies 1 to 4 run without any check between them: a rejected
  query of strategy 2, 3 or 4 ends the pass whatever the record holds.
\<close>

theorem late_strategies_skipped:
  "(firstFour p r = (None, r4) \<and> hasSocialLinks r4 \<longrightarrow>
      pass p r = (None, r4) \<and> pass (p\<lparr>anchors := a, content := c\<rparr>) r = (None, r4))
   \<and> (firstFour q s = (None, s4) \<and> \<not> hasSocialLinks s4
        \<and> extractLinksFrom (anchors q) s4 = (None, s5) \<and> hasSocialLinks s5 \<longrightarrow>
      pass q s = (None, s5) \<and> pass (q\<lparr>content := d\<rparr>) s = (None, s5))
   \<and> (strategy1 p2 t = (None, t1) \<and> jsonLdScripts p2 = Inl e2 \<longrightarrow> pass p2 t = (Some e2, t1))
   \<and> (strategy1 p3 v = (None, v1) \<and> strategy2 p3 v1 = (None, v2) \<and> relMeLinks p3 = Inl e3 \<longrightarrow>
        pass p3 v = (Some e3, v2))
   \<and> (strategy1 p4 w = (None, w1) \<and> strategy2 p4 w1 = (None, w2)
        \<and> strategy3 p4 w2 = (None, w3) \<and> twitterSite p4 = Inl e4 \<longrightarrow>
        pass p4 w = (Some e4, w3))"
proof (intro conjI impI)
  assume a: "firstFour p r = (None, r4) \<and> hasSocialLinks r4"
  then show "pass p r = (None, r4)" by (simp add: pass_found_by_four)
  have "firstFour (p\<lparr>anchors := a, content := c\<rparr>) r = (None, r4)"
    using a by (simp add: firstFour_ignores_late_sources)
  then show "pass (p\<lparr>anchors := a, content := c\<rparr>) r = (None, r4)"
    using a by (simp add: pass_found_by_four)
next
  assume a: "firstFour q s = (None, s4) \<and> \<not> hasSocialLinks s4
        \<and> extractLinksFrom (anchors q) s4 = (None, s5) \<and> hasSocialLinks s5"
  then show "pass q s = (None, s5)" by (simp add: pass_found_by_five)
  have "firstFour (q\<lparr>content := d\<rparr>) s = (None, s4)"
    using a firstFour_ignores_late_sources [where p = q and a = "anchors q" and c = d and r = s]
    by simp
  then show "pass (q\<lparr>content := d\<rparr>) s = (None, s5)"
    using a by (intro pass_found_by_five [where ?r4.0 = s4]) simp_all
next
  assume "strategy1 p2 t = (None, t1) \<and> jsonLdScripts p2 = Inl e2"
  then show "pass p2 t = (Some e2, t1)" by (simp add: pass_strategy2_thrown)
next
  assume "strategy1 p3 v = (None, v1) \<and> strategy2 p3 v1 = (None, v2) \<and> relMeLinks p3 = Inl e3"
  then show "pass p3 v = (Some e3, v2)" by (simp add: pass_strategy3_thrown)
next
  assume "strategy1 p4 w = (None, w1) \<and> strategy2 p4 w1 = (None, w2)
        \<and> strategy3 p4 w2 = (None, w3) \<and> twitterSite p4 = Inl e4"
  then show "pass p4 w = (Some e4, w3)" by (simp add: pass_strategy4_thrown)
qed

theorem late_strategies_skipped_witness:
  "firstFour instagramPage initResult = (None, instagramFound)
   \<and> hasSocialLinks instagramFound
   \<and> pass instagramPage initResult = (None, instagramFound)
   \<and> pass (instagramPage\<lparr>anchors := Inl ''Target closed'', content := Inl ''Target closed''\<rparr>)
        initResult = (None, instagramFound)
   \<and> firstFour anchorsPage initResult = (None, initResult)
   \<and> \<not> hasSocialLinks initResult
   \<and> extractLinksFrom (anchors anchorsPage) initResult = (None, instagramFound)
   \<and> pass (anchorsPage\<lparr>content := Inl ''Target closed''\<rparr>) initResult = (None, instagramFound)
   \<and> strategy1 fullHeaderPage initResult = (None, fullRecord)
   \<and> jsonLdScripts (fullHeaderPage\<lparr>jsonLdScripts := Inl ''Navigation''\<rparr>) = Inl ''Navigation''
   \<and> pass (fullHeaderPage\<lparr>jsonLdScripts := Inl ''Navigation''\<rparr>) initResult
       = (Some ''Navigation'', fullRecord)
   \<and> pass fullHeaderPage initResult = (Some ''Target closed'', fullRecord)
   \<and> pass (fullHeaderPage\<lparr>relMeLinks := Inr [], twitterSite := Inl ''Detached''\<rparr>) initResult
       = (Some ''Detached'', fullRecord)"
proof -
  note T = late_strategies_skipped [where p = instagramPage and r = initResult
      and ?r4.0 = instagramFound and a = "Inl ''Target closed''" and c = "Inl ''Target closed''"
      and q = anchorsPage and s = initResult and ?s4.0 = initResult and ?s5.0 = instagramFound
      and d = "Inl ''Target closed''"
      and ?p2.0 = "fullHeaderPage\<lparr>jsonLdScripts := Inl ''Navigation''\<rparr>" and t = initResult
      and ?t1.0 = fullRecord and ?e2.0 = "''Navigation''"
      and ?p3.0 = fullHeaderPage and v = initResult and ?v1.0 = fullRecord and ?v2.0 = fullRecord
      and ?e3.0 = "''Target closed''"
      and ?p4.0 = "fullHeaderPage\<lparr>relMeLinks := Inr [], twitterSite := Inl ''Detached''\<rparr>"
      and w = initResult and ?w1.0 = fullRecord and ?w2.0 = fullRecord and ?w3.0 = fullRecord
      and ?e4.0 = "''Detached''"]
  have a1: "firstFour instagramPage initResult = (None, instagramFound)" by code_simp
  have a2: "hasSocialLinks instagramFound" by code_simp
  have b1: "firstFour anchorsPage initResult = (None, initResult)" by code_simp
  have b2: "\<not> hasSocialLinks initResult" by (rule not_has_initResult)
  have b3: "extractLinksFrom (anchors anchorsPage) initResult = (None, instagramFound)"
    by code_simp
  have c1: "strategy1 (fullHeaderPage\<lparr>jsonLdScripts := Inl ''Navigation''\<rparr>) initResult
              = (None, fullRecord)"
    by code_simp
  have c2: "jsonLdScripts (fullHeaderPage\<lparr>jsonLdScripts := Inl ''Navigation''\<rparr>) = Inl ''Navigation''"
    by simp
  have d1: "strategy1 fullHeaderPage initResult = (None, fullRecord)" by code_simp
  have d2: "strategy2 fullHeaderPage fullRecord = (None, fullRecord)" by code_simp
  have d3: "relMeLinks fullHeaderPage = Inl ''Target closed''" by code_simp
  have e1: "strategy1 (fullHeaderPage\<lparr>relMeLinks := Inr [], twitterSite := Inl ''Detached''\<rparr>)
              initResult = (None, fullRecord)"
    by code_simp
  have e2: "strategy2 (fullHeaderPage\<lparr>relMeLinks := Inr [], twitterSite := Inl ''Detached''\<rparr>)
              fullRecord = (None, fullRecord)"
    by code_simp
  have e3: "strategy3 (fullHeaderPage\<lparr>relMeLinks := Inr [], twitterSite := Inl ''Detached''\<rparr>)
              fullRecord = (None, fullRecord)"
    by code_simp
  have e4: "twitterSite (fullHeaderPage\<lparr>relMeLinks := Inr [], twitterSite := Inl ''Detached''\<rparr>)
              = Inl ''Detached''"
    by simp
  have r1: "pass instagramPage initResult = (None, instagramFound)
      \<and> pass (instagramPage\<lparr>anchors := Inl ''Target closed'', content := Inl ''Target closed''\<rparr>)
        initResult = (None, instagramFound)"
    using T a1 a2 by blast
  have r2: "pass anchorsPage initResult = (None, instagramFound)
      \<and> pass (anchorsPage\<lparr>content := Inl ''Target closed''\<rparr>) initResult = (None, instagramFound)"
    using T b1 b2 b3 a2 by blast
  have r3: "pass (fullHeaderPage\<lparr>jsonLdScripts := Inl ''Navigation''\<rparr>) initResult
       = (Some ''Navigation'', fullRecord)"
    using T c1 c2 by blast
  have r4: "pass fullHeaderPage initResult = (Some ''Target closed'', fullRecord)"
    using T d1 d2 d3 by blast
  have r5: "pass (fullHeaderPage\<lparr>relMeLinks := Inr [], twitterSite := Inl ''Detached''\<rparr>) initResult
       = (Some ''Detached'', fullRecord)"
    using T e1 e2 e3 e4 by blast
  show ?thesis
    using a1 a2 b1 b2 b3 c2 d1 r1 r2 r3 r4 r5 by blast
qed




text \<open>
  C1, as stated, fails in the local-services scraper: its guard fires on the body text
  and the record returned is \<^verbatim>\<open>{ error: 'captcha' }\<close>, without a \<^verbatim>\<open>url\<close> key.
\<close>

theorem local_captcha_record_has_no_url:
  "str_includes ''Our systems have detected unusual traffic from your network'' ''unusual traffic''
   \<and> scrapeLocalServices blockedLocalBrowser ''electrician in chicago'' 1
       = Some (LocalReturned [(''error'', ''captcha'')])
   \<and> map_of [(''error'', ''captcha'')] ''url'' = (None :: string option)"
  by (simp add: scrapeLocalServices_def blockedLocalBrowser_def)

text \<open>
  C1, amended. When the guard fires (the body text contains one of the two phrases, or
  the reCAPTCHA iframe is present) and the browser closes normally, the Facebook scraper
  makes no pass and returns the record with \<^verbatim>\<open>error: 'captcha'\<close> and the normalized
  URL; the local-services scraper returns the record with \<^verbatim>\<open>error: 'captcha'\<close> alone.
\<close>

theorem captcha_short_circuit:
  "(launch b (cfgHeadless (mkConfig 20 opts)) = None
      \<and> goto b (normalizeFacebookUrl u) (cfgTimeout (mkConfig 20 opts)) = None
      \<and> bodyText g = Inr (Some body)
      \<and> (str_includes body ''unusual traffic'' \<or> str_includes body ''not a robot''
           \<or> (\<exists>n. recaptchaCount g = Inr n \<and> 0 < n))
      \<and> close b = None \<longrightarrow>
      scrapeFacebookProfile b g u opts
        = (Returned [(''error'', ''captcha''), (''url'', normalizeFacebookUrl u)],
           [LogStart (normalizeFacebookUrl u), LogCaptcha])
      \<and> passes (snd (scrapeFacebookProfile b g u opts)) = 0)
   \<and> (lsLaunch lb = None \<and> lsGoto lb query pageNo = None
      \<and> lsBodyText lb = Inr (Some body')
      \<and> lsRecaptcha lb = Inr iframe
      \<and> (str_includes body' ''unusual traffic'' \<or> str_includes body' ''not a robot'' \<or> iframe)
      \<and> lsClose lb = None \<longrightarrow>
      scrapeLocalServices lb query pageNo = Some (LocalReturned [(''error'', ''captcha'')]))"
proof (intro conjI impI)
  assume a: "launch b (cfgHeadless (mkConfig 20 opts)) = None
      \<and> goto b (normalizeFacebookUrl u) (cfgTimeout (mkConfig 20 opts)) = None
      \<and> bodyText g = Inr (Some body)
      \<and> (str_includes body ''unusual traffic'' \<or> str_includes body ''not a robot''
           \<or> (\<exists>n. recaptchaCount g = Inr n \<and> 0 < n))
      \<and> close b = None"
  then have d: "captchaDetected g = Inr True"
    by (auto simp: captchaDetected_def bindF_def)
  then show e: "scrapeFacebookProfile b g u opts
        = (Returned [(''error'', ''captcha''), (''url'', normalizeFacebookUrl u)],
           [LogStart (normalizeFacebookUrl u), LogCaptcha])"
    using a by (simp add: scrapeFacebookProfile_def Let_def finallyClose_def errorRecord_def)
  show "passes (snd (scrapeFacebookProfile b g u opts)) = 0"
    unfolding e by (simp add: count_simps)
next
  assume "lsLaunch lb = None \<and> lsGoto lb query pageNo = None
      \<and> lsBodyText lb = Inr (Some body')
      \<and> lsRecaptcha lb = Inr iframe
      \<and> (str_includes body' ''unusual traffic'' \<or> str_includes body' ''not a robot'' \<or> iframe)
      \<and> lsClose lb = None"
  then show "scrapeLocalServices lb query pageNo = Some (LocalReturned [(''error'', ''captcha'')])"
    by (auto simp: scrapeLocalServices_def)
qed

theorem captcha_short_circuit_witness:
  "bodyText robotGuard = Inr (Some ''Please confirm you are not a robot'')
   \<and> str_includes ''Please confirm you are not a robot'' ''not a robot''
   \<and> normalizeFacebookUrl '' facebook.com/acme '' = ''https://facebook.com/acme''
   \<and> scrapeFacebookProfile (steadyBrowser bakeryFbPage) robotGuard '' facebook.com/acme '' noOptions
       = (Returned [(''error'', ''captcha''), (''url'', ''https://facebook.com/acme'')],
          [LogStart ''https://facebook.com/acme'', LogCaptcha])
   \<and> passes (snd (scrapeFacebookProfile (steadyBrowser bakeryFbPage) robotGuard
                    '' facebook.com/acme '' noOptions)) = 0
   \<and> lsBodyText blockedLocalBrowser
       = Inr (Some ''Our systems have detected unusual traffic from your network'')
   \<and> scrapeLocalServices blockedLocalBrowser ''electrician in chicago'' 1
       = Some (LocalReturned [(''error'', ''captcha'')])"
proof -
  note T = captcha_short_circuit [where b = "steadyBrowser bakeryFbPage" and opts = noOptions
      and u = "'' facebook.com/acme ''" and g = robotGuard
      and body = "''Please confirm you are not a robot''"
      and lb = blockedLocalBrowser and query = "''electrician in chicago''" and pageNo = 1
      and body' = "''Our systems have detected unusual traffic from your network''"
      and iframe = False]
  have l: "launch (steadyBrowser bakeryFbPage) (cfgHeadless (mkConfig 20 noOptions)) = None"
    "goto (steadyBrowser bakeryFbPage) (normalizeFacebookUrl '' facebook.com/acme '')
       (cfgTimeout (mkConfig 20 noOptions)) = None"
    "close (steadyBrowser bakeryFbPage) = None"
    by (simp_all add: steadyBrowser_def)
  have t: "bodyText robotGuard = Inr (Some ''Please confirm you are not a robot'')"
    by (simp add: robotGuard_def)
  have i: "str_includes ''Please confirm you are not a robot'' ''not a robot''" by code_simp
  have n: "normalizeFacebookUrl '' facebook.com/acme '' = ''https://facebook.com/acme''"
    by code_simp
  have r1: "scrapeFacebookProfile (steadyBrowser bakeryFbPage) robotGuard '' facebook.com/acme '' noOptions
        = (Returned [(''error'', ''captcha''), (''url'', normalizeFacebookUrl '' facebook.com/acme '')],
           [LogStart (normalizeFacebookUrl '' facebook.com/acme ''), LogCaptcha])
      \<and> passes (snd (scrapeFacebookProfile (steadyBrowser bakeryFbPage) robotGuard
                    '' facebook.com/acme '' noOptions)) = 0"
    using T l t i by blast
  have m: "lsLaunch blockedLocalBrowser = None"
    "lsGoto blockedLocalBrowser ''electrician in chicago'' 1 = None"
    "lsBodyText blockedLocalBrowser
       = Inr (Some ''Our systems have detected unusual traffic from your network'')"
    "lsRecaptcha blockedLocalBrowser = Inr False"
    "lsClose blockedLocalBrowser = None"
    by (simp_all add: blockedLocalBrowser_def)
  have j: "str_includes ''Our systems have detected unusual traffic from your network''
             ''unusual traffic''"
    by code_simp
  have r2: "scrapeLocalServices blockedLocalBrowser ''electrician in chicago'' 1
       = Some (LocalReturned [(''error'', ''captcha'')])"
    using T m j by blast
  have r1': "scrapeFacebookProfile (steadyBrowser bakeryFbPage) robotGuard '' facebook.com/acme '' noOptions
        = (Returned [(''error'', ''captcha''), (''url'', ''https://facebook.com/acme'')],
           [LogStart ''https://facebook.com/acme'', LogCaptcha])"
    using r1 unfolding n by (rule conjunct1)
  show ?thesis using t i n r1' r1 r2 m(3) by blast
qed

end
